theory Spec2Isabelle
  imports Complex_Main "HOL-Library.Word"
begin

section \<open>JavaScript values\<close>

text \<open>
  The payloads handled by the adapter are JSON documents of type \<open>any\<close>. A JavaScript
  string is a sequence of UTF-16 code units; \<open>utf16\<close> embeds the ASCII literals of the
  source. A property that is absent from an object reads as \<open>JUndefined\<close>.
\<close>

type_synonym jstring = "nat list"

definition utf16 :: "string \<Rightarrow> jstring" where
  "utf16 s = map of_char s"

datatype jsval =
    JUndefined
  | JNull
  | JBool bool
  | JNum real
  | JStr jstring
  | JArr "jsval list"
  | JObj "(string \<times> jsval) list"

type_synonym jsobj = "string \<Rightarrow> jsval"

text \<open>ToBoolean: \<open>undefined\<close>, \<open>null\<close>, \<open>false\<close>, \<open>0\<close> and \<open>""\<close> are falsy.\<close>

fun truthy :: "jsval \<Rightarrow> bool" where
  "truthy JUndefined = False"
| "truthy JNull = False"
| "truthy (JBool b) = b"
| "truthy (JNum x) = (x \<noteq> 0)"
| "truthy (JStr s) = (s \<noteq> [])"
| "truthy (JArr xs) = True"
| "truthy (JObj kvs) = True"

text \<open>The operator \<open>a || b\<close>.\<close>

definition js_or :: "jsval \<Rightarrow> jsval \<Rightarrow> jsval" where
  "js_or a b = (if truthy a then a else b)"

text \<open>
  What the adapter takes from its JavaScript runtime: the clock, the value of the expression
  \<open>new Date(t).getTime() / 1000 - u\<close>, and ToNumber on strings, arrays and objects
  (\<open>None\<close> is NaN).
\<close>

record js_runtime =
  Date_now :: real
  boot_time_of :: "jsval \<Rightarrow> jsval \<Rightarrow> jsval"
  StringToNumber :: "jsval \<Rightarrow> real option"

text \<open>ToNumber; \<open>None\<close> is NaN.\<close>

fun ToNumber :: "js_runtime \<Rightarrow> jsval \<Rightarrow> real option" where
  "ToNumber rt JUndefined = None"
| "ToNumber rt JNull = Some 0"
| "ToNumber rt (JBool b) = Some (if b then 1 else 0)"
| "ToNumber rt (JNum x) = Some x"
| "ToNumber rt v = StringToNumber rt v"

text \<open>The comparison \<open>v > 0\<close>: false when \<open>v\<close> converts to NaN.\<close>

definition js_gt_zero :: "js_runtime \<Rightarrow> jsval \<Rightarrow> bool" where
  "js_gt_zero rt v = (case ToNumber rt v of None \<Rightarrow> False | Some x \<Rightarrow> 0 < x)"

text \<open>The expression \<open>-w || 0\<close>: NaN and zero are falsy.\<close>

definition js_neg_or_zero :: "js_runtime \<Rightarrow> jsval \<Rightarrow> real" where
  "js_neg_or_zero rt w = (case ToNumber rt w of None \<Rightarrow> 0 | Some x \<Rightarrow> if - x \<noteq> 0 then - x else 0)"

section \<open>JavaScript Map\<close>

text \<open>
  A \<open>Map\<close> keeps its entries in insertion order; \<open>set\<close> on an existing key replaces the
  value in place. Both the status map of the reconciliation and the correlation table of
  the RPC client are Maps.
\<close>

definition Map_set :: "('k \<times> 'v) list \<Rightarrow> 'k \<Rightarrow> 'v \<Rightarrow> ('k \<times> 'v) list" where
  "Map_set m k v =
     (if k \<in> set (map fst m) then map (\<lambda>e. if fst e = k then (k, v) else e) m
      else m @ [(k, v)])"

definition Map_new :: "('k \<times> 'v) list \<Rightarrow> ('k \<times> 'v) list" where
  "Map_new entries = foldl (\<lambda>m e. Map_set m (fst e) (snd e)) [] entries"

definition Map_get :: "('k \<times> 'v) list \<Rightarrow> 'k \<Rightarrow> 'v option" where
  "Map_get m k = map_of m k"

definition Map_has :: "('k \<times> 'v) list \<Rightarrow> 'k \<Rightarrow> bool" where
  "Map_has m k = (k \<in> set (map fst m))"

definition Map_delete :: "('k \<times> 'v) list \<Rightarrow> 'k \<Rightarrow> ('k \<times> 'v) list" where
  "Map_delete m k = filter (\<lambda>e. fst e \<noteq> k) m"

section \<open>Roster reconciliation (src/lib/utils.ts)\<close>

subsection \<open>Payloads\<close>

text \<open>
  A roster entry (an element of \<open>km_servers_cache\<close>) and a live-status record (a value of
  the \<open>data\<close> mapping). The code calls string operations on \<open>server.uuid\<close>,
  \<open>server.region\<close> and on a truthy \<open>status.region\<close>, so these are strings; every other
  property is read through \<open>props\<close> and may hold any value.
\<close>

record km_node =
  uuid :: jstring
  region :: jstring
  props :: jsobj

record km_status =
  status_region :: "jstring option"
  status_props :: jsobj

record temperature =
  Name :: jstring
  Temperature :: jsval

record nezha_host =
  platform :: jsval
  platform_version :: jsval
  host_cpu :: "jsval list"
  host_gpu :: "jsval list"
  mem_total :: jsval
  disk_total :: jsval
  swap_total :: jsval
  arch :: jsval
  boot_time :: jsval
  version :: jstring

record nezha_state =
  cpu :: jsval
  mem_used :: jsval
  swap_used :: jsval
  disk_used :: jsval
  net_in_transfer :: jsval
  net_out_transfer :: jsval
  net_in_speed :: jsval
  net_out_speed :: jsval
  uptime :: jsval
  load_1 :: jsval
  load_5 :: jsval
  load_15 :: jsval
  tcp_conn_count :: jsval
  udp_conn_count :: jsval
  process_count :: jsval
  temperatures :: "temperature list"
  gpu :: "jsval list"

record nezha_server =
  sid :: nat
  name :: jsval
  public_note :: jsval
  last_active :: jsval
  country_code :: jstring
  display_index :: real
  host :: nezha_host
  state :: nezha_state

record nezha_response =
  now :: real
  servers :: "nezha_server list"

subsection \<open>uuidToNumber and countryFlagToCode\<close>

text \<open>
  \<open>hash = charCode + ((hash << 5) - hash)\<close> for every code unit, then \<open>hash >>> 0\<close>.
  The shift reads \<open>hash\<close> modulo \<open>2^32\<close> and so does the final \<open>>>> 0\<close>, so the result
  is the 32-bit value of the recurrence.
\<close>

definition uuidToNumber :: "jstring \<Rightarrow> nat" where
  "uuidToNumber u =
     unat (foldl (\<lambda>hash charCode. (of_nat charCode :: 32 word) + (push_bit 5 hash - hash)) 0 u)"

text \<open>The code points that \<open>[...flag]\<close> iterates over: a surrogate pair is one code point.\<close>

fun codePoints :: "jstring \<Rightarrow> nat list" where
  "codePoints (hi # lo # rest) =
     (if 55296 \<le> hi \<and> hi \<le> 56319 \<and> 56320 \<le> lo \<and> lo \<le> 57343
      then (65536 + (hi - 55296) * 1024 + (lo - 56320)) # codePoints rest
      else hi # codePoints (lo # rest))"
| "codePoints us = us"

text \<open>\<open>String.fromCharCode\<close> keeps the low 16 bits of its argument.\<close>

definition fromCharCode :: "int \<Rightarrow> nat" where
  "fromCharCode n = nat (n mod 65536)"

definition countryFlagToCode :: "jstring \<Rightarrow> jstring" where
  "countryFlagToCode flag = map (\<lambda>c. fromCharCode (int c - 127397 + 32)) (codePoints flag)"

subsection \<open>Entities synthesised from a live-status record alone\<close>

text \<open>
  The object pushed for a key of \<open>data\<close> on the path without a cached roster (the
  \<open>reduce\<close> callback) and for every key left in \<open>statusMap\<close> after the roster pass (the
  final \<open>for\<close> loop); the two blocks of the source are the same text.
\<close>

definition temperatures_of :: "js_runtime \<Rightarrow> jsval \<Rightarrow> temperature list" where
  "temperatures_of rt temp =
     (if js_gt_zero rt temp then [\<lparr>Name = utf16 ''CPU'', Temperature = temp\<rparr>] else [])"

definition is_number :: "jsval \<Rightarrow> bool" where
  "is_number v = (case v of JNum x \<Rightarrow> True | _ \<Rightarrow> False)"

text \<open>
  The \<open>state\<close> object built from a live-status record. The source writes this object
  three times; the copy inside the roster pass differs from the other two only in the
  \<open>gpu\<close> property, where it tests \<open>server.gpu_name && typeof status.gpu === "number"\<close>
  instead of \<open>typeof status.gpu === "number"\<close>. The argument \<open>gpu_guard\<close> is that extra
  conjunct (\<open>True\<close> where the source has none).
\<close>

definition status_host :: "js_runtime \<Rightarrow> km_status \<Rightarrow> nezha_host" where
  "status_host rt status =
     (let p = status_props status in
      \<lparr>platform = js_or (p ''os'') (JStr []),
       platform_version = js_or (p ''kernel_version'') (JStr []),
       host_cpu = (if truthy (p ''cpu_name'') then [p ''cpu_name''] else []),
       host_gpu = (if truthy (p ''gpu_name'') then [p ''gpu_name''] else []),
       mem_total = js_or (p ''ram_total'') (JNum 0),
       disk_total = js_or (p ''disk_total'') (JNum 0),
       swap_total = js_or (p ''swap_total'') (JNum 0),
       arch = js_or (p ''arch'') (JStr []),
       boot_time = boot_time_of rt (p ''time'') (js_or (p ''uptime'') (JNum 0)),
       version = []\<rparr>)"

definition status_state :: "js_runtime \<Rightarrow> bool \<Rightarrow> km_status \<Rightarrow> nezha_state" where
  "status_state rt gpu_guard status =
     (let p = status_props status in
      \<lparr>cpu = js_or (p ''cpu'') (JNum 0),
       mem_used = js_or (p ''ram'') (JNum 0),
       swap_used = js_or (p ''swap'') (JNum 0),
       disk_used = js_or (p ''disk'') (JNum 0),
       net_in_transfer = js_or (p ''net_total_down'') (JNum 0),
       net_out_transfer = js_or (p ''net_total_up'') (JNum 0),
       net_in_speed = js_or (p ''net_in'') (JNum 0),
       net_out_speed = js_or (p ''net_out'') (JNum 0),
       uptime = js_or (p ''uptime'') (JNum 0),
       load_1 = js_or (p ''load'') (JNum 0),
       load_5 = js_or (p ''load5'') (JNum 0),
       load_15 = js_or (p ''load15'') (JNum 0),
       tcp_conn_count = js_or (p ''connections'') (JNum 0),
       udp_conn_count = js_or (p ''connections_udp'') (JNum 0),
       process_count = js_or (p ''process'') (JNum 0),
       temperatures = temperatures_of rt (p ''temp''),
       gpu = (if gpu_guard \<and> is_number (p ''gpu'') then [p ''gpu''] else [])\<rparr>)"

definition status_server :: "js_runtime \<Rightarrow> jstring \<times> km_status \<Rightarrow> nezha_server" where
  "status_server rt entry =
     (case entry of (key, status) \<Rightarrow>
      \<lparr>sid = uuidToNumber key,
       name = js_or (status_props status ''name'') (JStr key),
       public_note = JStr [],
       last_active = status_props status ''time'',
       country_code =
         (case status_region status of
            None \<Rightarrow> []
          | Some flag \<Rightarrow> if flag \<noteq> [] then countryFlagToCode flag else []),
       display_index = 0,
       host = status_host rt status,
       state = status_state rt True status\<rparr>)"

subsection \<open>Entities built from a roster entry\<close>

definition offline_state :: nezha_state where
  "offline_state =
     \<lparr>cpu = JNum 0, mem_used = JNum 0, swap_used = JNum 0, disk_used = JNum 0,
      net_in_transfer = JNum 0, net_out_transfer = JNum 0, net_in_speed = JNum 0,
      net_out_speed = JNum 0, uptime = JNum 0, load_1 = JNum 0, load_5 = JNum 0,
      load_15 = JNum 0, tcp_conn_count = JNum 0, udp_conn_count = JNum 0,
      process_count = JNum 0, temperatures = [], gpu = []\<rparr>"

text \<open>The callback of \<open>km_servers_cache.map\<close>, given \<open>status = statusMap.get(uuid)\<close>.\<close>

definition roster_server :: "js_runtime \<Rightarrow> km_node \<Rightarrow> km_status option \<Rightarrow> nezha_server" where
  "roster_server rt server status =
     (let p = props server;
          bootTime =
            (case status of
               Some st \<Rightarrow> boot_time_of rt (status_props st ''time'')
                            (js_or (status_props st ''uptime'') (JNum 0))
             | None \<Rightarrow> JNum 0)
      in
      \<lparr>sid = uuidToNumber (uuid server),
       name = p ''name'',
       public_note = js_or (p ''public_note'') (JStr []),
       last_active =
         (case status of
            Some st \<Rightarrow> status_props st ''time''
          | None \<Rightarrow> JStr (utf16 ''0000-00-00T00:00:00Z'')),
       country_code = countryFlagToCode (region server),
       display_index = js_neg_or_zero rt (p ''weight''),
       host =
         \<lparr>platform = p ''os'',
          platform_version = p ''kernel_version'',
          host_cpu = [p ''cpu_name''],
          host_gpu = (if truthy (p ''gpu_name'') then [p ''gpu_name''] else []),
          mem_total = p ''mem_total'',
          disk_total = p ''disk_total'',
          swap_total = p ''swap_total'',
          arch = p ''arch'',
          boot_time = bootTime,
          version = []\<rparr>,
       state =
         (case status of
            Some st \<Rightarrow> status_state rt (truthy (p ''gpu_name'')) st
          | None \<Rightarrow> offline_state)\<rparr>)"

type_synonym status_map = "(jstring \<times> km_status) list"

subsection \<open>komariToNezhaWebsocketResponse\<close>

text \<open>
  \<open>km_servers_cache.map\<close> with the deletions from \<open>statusMap\<close> threaded through: the
  result is the list of entities and the map that remains.
\<close>

fun roster_pass ::
  "js_runtime \<Rightarrow> km_node list \<Rightarrow> status_map \<Rightarrow> nezha_server list \<times> status_map" where
  "roster_pass rt [] statusMap = ([], statusMap)"
| "roster_pass rt (server # rest) statusMap =
     (let status = Map_get statusMap (uuid server);
          statusMap' =
            (if Map_has statusMap (uuid server) then Map_delete statusMap (uuid server)
             else statusMap);
          r = roster_pass rt rest statusMap'
      in (roster_server rt server status # fst r, snd r))"

text \<open>
  The argument \<open>data\<close> is \<open>Object.entries(data || {})\<close>, the entries of the live-status
  mapping in enumeration order; \<open>km_servers_cache\<close> is the module-level roster cache as the
  call finds it. When the cache is empty the source also starts the asynchronous
  \<open>common:getNodes\<close> fetch, whose completion replaces the cache after the call has
  returned.
\<close>

definition komariToNezhaWebsocketResponse ::
  "js_runtime \<Rightarrow> km_node list \<Rightarrow> (jstring \<times> km_status) list \<Rightarrow> nezha_response" where
  "komariToNezhaWebsocketResponse rt km_servers_cache data =
     (if km_servers_cache = [] then
        \<lparr>now = Date_now rt, servers = map (status_server rt) data\<rparr>
      else
        (let r = roster_pass rt km_servers_cache (Map_new data)
         in \<lparr>now = Date_now rt, servers = fst r @ map (status_server rt) (snd r)\<rparr>))"

subsection \<open>The reconciliation as the specification describes it\<close>

text \<open>
  Specification, section 4.3: every roster entry yields one entity, merged with the
  live-status record of the same key when there is one; every live-status key that no
  roster entry consumed yields one more entity, appended after them. A \<open>source\<close> records
  where an output entity comes from, and \<open>reconcile_plan\<close> lists the sources in output
  order.
\<close>

datatype source = FromRoster km_node "km_status option" | FromFeed jstring km_status

fun source_key :: "source \<Rightarrow> jstring" where
  "source_key (FromRoster server status) = uuid server"
| "source_key (FromFeed key status) = key"

fun build_entity :: "js_runtime \<Rightarrow> source \<Rightarrow> nezha_server" where
  "build_entity rt (FromRoster server status) = roster_server rt server status"
| "build_entity rt (FromFeed key status) = status_server rt (key, status)"

definition reconcile_plan :: "km_node list \<Rightarrow> (jstring \<times> km_status) list \<Rightarrow> source list" where
  "reconcile_plan roster feed =
     map (\<lambda>server. FromRoster server (map_of feed (uuid server))) roster @
     map (\<lambda>e. FromFeed (fst e) (snd e)) (filter (\<lambda>e. fst e \<notin> set (map uuid roster)) feed)"

subsection \<open>How formatNezhaInfo reads the last-active marker\<close>

text \<open>
  \<open>lastActiveTime = last_active.startsWith("000") ? 0 : parseISOTimestamp(last_active)\<close> and
  \<open>last_active_time_string: lastActiveTime ? dayjs(lastActiveTime).format(...) : ""\<close>.
  Date parsing (\<open>None\<close> is NaN) and date formatting are arguments.
\<close>

definition startsWith :: "jstring \<Rightarrow> jstring \<Rightarrow> bool" where
  "startsWith s p = (take (length p) s = p)"

definition lastActiveTime :: "(jstring \<Rightarrow> real option) \<Rightarrow> jstring \<Rightarrow> real option" where
  "lastActiveTime parseISOTimestamp la =
     (if startsWith la (utf16 ''000'') then Some 0 else parseISOTimestamp la)"

definition last_active_time_string ::
  "(real \<Rightarrow> jstring) \<Rightarrow> (jstring \<Rightarrow> real option) \<Rightarrow> jstring \<Rightarrow> jstring" where
  "last_active_time_string format parseISOTimestamp la =
     (case lastActiveTime parseISOTimestamp la of
        None \<Rightarrow> []
      | Some t \<Rightarrow> if t \<noteq> 0 then format t else [])"

subsection \<open>Concrete inputs\<close>

definition example_runtime :: js_runtime where
  "example_runtime =
     \<lparr>Date_now = 0, boot_time_of = (\<lambda>t u. JNum 0), StringToNumber = (\<lambda>v. None)\<rparr>"

definition example_node :: "string \<Rightarrow> (string \<times> jsval) list \<Rightarrow> km_node" where
  "example_node k kvs =
     \<lparr>uuid = utf16 k, region = [],
      props = (\<lambda>f. case map_of kvs f of None \<Rightarrow> JUndefined | Some v \<Rightarrow> v)\<rparr>"

definition example_status :: "(string \<times> jsval) list \<Rightarrow> km_status" where
  "example_status kvs =
     \<lparr>status_region = None,
      status_props = (\<lambda>f. case map_of kvs f of None \<Rightarrow> JUndefined | Some v \<Rightarrow> v)\<rparr>"

section \<open>The RPC2 client (src/lib/rpc2.ts)\<close>

subsection \<open>Protocol types\<close>

datatype RPC2ConnectionState = DISCONNECTED | CONNECTING | CONNECTED | RECONNECTING | ERROR

text \<open>\<open>WebSocket.readyState\<close>.\<close>

datatype readyState = WS_CONNECTING | WS_OPEN | WS_CLOSING | WS_CLOSED

text \<open>
  \<open>id?: string | number | null\<close>. The client generates integer ids; \<open>!data.id\<close> holds for
  an absent id, \<open>null\<close>, \<open>0\<close> and the empty string.
\<close>

datatype rpc_id = IdAbsent | IdNull | IdNum int | IdStr string

fun id_truthy :: "rpc_id \<Rightarrow> bool" where
  "id_truthy IdAbsent = False"
| "id_truthy IdNull = False"
| "id_truthy (IdNum n) = (n \<noteq> 0)"
| "id_truthy (IdStr s) = (s \<noteq> [])"

text \<open>
  The \<open>Error\<close> values the client creates, by the text of their message (the messages of
  the source are Chinese; they are named here by their meaning).
\<close>

datatype rpc_error =
    WebSocketNotConnected
  | RequestTimedOut string
  | RPCError int string
  | ConnectionClosed
  | HTTPStatus int string
  | FetchError string
  | RequestFailed string
  | WebSocketConnectFailed
  | WebSocketConnectTimeout
  | WebSocketConstructorError
  | WebSocketConnectionError

datatype rpc_payload = Result jsval | ErrorObject int string

record JSONRPC2Response =
  response_id :: rpc_id
  payload :: rpc_payload

text \<open>A request: the properties \<open>method\<close>, \<open>params\<close> and \<open>id\<close>.\<close>

record JSONRPC2Request =
  rpc_method :: string
  params :: jsval
  request_id :: rpc_id

record RPC2ConnectionOptions =
  autoConnect :: bool
  autoReconnect :: bool
  reconnectInterval :: nat
  maxReconnectAttempts :: int
  requestTimeout :: nat
  enableHeartbeat :: bool
  heartbeatIntervalMs :: nat
  headers :: "(string \<times> string) list"

definition default_options :: RPC2ConnectionOptions where
  "default_options =
     \<lparr>autoConnect = True, autoReconnect = True, reconnectInterval = 3000,
      maxReconnectAttempts = 5, requestTimeout = 30000, enableHeartbeat = True,
      heartbeatIntervalMs = 15000, headers = [(''Content-Type'', ''application/json'')]\<rparr>"

record RPC2CallOptions =
  call_timeout :: "nat option"
  notification :: bool

datatype listener_event =
    OnConnect
  | OnDisconnect
  | OnError rpc_error
  | OnReconnecting nat
  | OnMessage JSONRPC2Response

subsection \<open>Client state\<close>

text \<open>
  A timer callback: the timeout of a correlated request (its id, the promise whose
  \<open>reject\<close> it calls, the method name), the reconnect delay, the heartbeat interval, and
  the ten-second timeout inside \<open>connect\<close> for a given socket.
\<close>

datatype timer_callback =
    RequestTimeout rpc_id nat string
  | ReconnectTimer
  | HeartbeatTick
  | ConnectTimeout nat

text \<open>
  An entry of \<open>pendingRequests\<close>: \<open>resolve\<close> and \<open>reject\<close> are the two continuations of
  one promise, named by the number of that promise, and \<open>timeout\<close> is a timer handle.
\<close>

record pending_call =
  promise :: nat
  timeout :: "nat option"

text \<open>
  The fields of the class, followed by the part of the runtime the class acts on: the
  sockets it has constructed with their \<open>readyState\<close> (\<open>ws\<close> is an index into them or
  \<open>null\<close>), the \<open>open\<close>/\<open>error\<close> listeners that a running \<open>connect\<close> has attached (socket to
  the handle of its timeout), the active timers by handle (delay and callback), the next
  timer handle and promise number, every call of a stored \<open>resolve\<close> or \<open>reject\<close>, the
  messages passed to \<open>ws.send\<close>, the requests posted with \<open>fetch\<close>, and the calls of the
  event listeners. Timer handles are positive, so \<open>if (handle)\<close> holds for every handle.
\<close>

record RPC2Client =
  ws :: "nat option"
  connectionState :: RPC2ConnectionState
  requestId :: nat
  pendingRequests :: "(rpc_id \<times> pending_call) list"
  reconnectAttempts :: nat
  reconnectTimeout :: "nat option"
  heartbeatInterval :: "nat option"
  options :: RPC2ConnectionOptions
  sockets :: "readyState list"
  connect_waiters :: "nat \<rightharpoonup> nat"
  timers :: "nat \<rightharpoonup> nat \<times> timer_callback"
  next_timer :: nat
  next_promise :: nat
  settled :: "(nat \<times> (rpc_error + jsval)) list"
  sent :: "JSONRPC2Request list"
  posted :: "JSONRPC2Request list list"
  notified :: "listener_event list"

subsection \<open>Runtime primitives\<close>

definition setTimeout :: "nat \<Rightarrow> timer_callback \<Rightarrow> RPC2Client \<Rightarrow> nat \<times> RPC2Client" where
  "setTimeout delay cb s =
     (next_timer s,
      s\<lparr>timers := (timers s)(next_timer s \<mapsto> (delay, cb)), next_timer := next_timer s + 1\<rparr>)"

definition clearTimeout :: "nat \<Rightarrow> RPC2Client \<Rightarrow> RPC2Client" where
  "clearTimeout handle s = s\<lparr>timers := (timers s)(handle := None)\<rparr>"

text \<open>A call of the \<open>resolve\<close> or \<open>reject\<close> continuation of promise \<open>p\<close>.\<close>

definition settle :: "nat \<Rightarrow> rpc_error + jsval \<Rightarrow> RPC2Client \<Rightarrow> RPC2Client" where
  "settle p outcome s = s\<lparr>settled := settled s @ [(p, outcome)]\<rparr>"

definition notify :: "listener_event \<Rightarrow> RPC2Client \<Rightarrow> RPC2Client" where
  "notify e s = s\<lparr>notified := notified s @ [e]\<rparr>"

definition socket_state :: "RPC2Client \<Rightarrow> nat \<Rightarrow> readyState option" where
  "socket_state s k = (if k < length (sockets s) then Some (sockets s ! k) else None)"

definition set_socket_state :: "nat \<Rightarrow> readyState \<Rightarrow> RPC2Client \<Rightarrow> RPC2Client" where
  "set_socket_state k r s = s\<lparr>sockets := (sockets s)[k := r]\<rparr>"

text \<open>\<open>ws.close()\<close>: a socket that is connecting or open starts closing.\<close>

definition socket_close :: "nat \<Rightarrow> RPC2Client \<Rightarrow> RPC2Client" where
  "socket_close k s =
     (if socket_state s k = Some WS_CONNECTING \<or> socket_state s k = Some WS_OPEN
      then set_socket_state k WS_CLOSING s else s)"

subsection \<open>Private methods\<close>

definition setConnectionState :: "RPC2ConnectionState \<Rightarrow> RPC2Client \<Rightarrow> RPC2Client" where
  "setConnectionState st s = s\<lparr>connectionState := st\<rparr>"

text \<open>
  \<open>x + 1\<close> for a JavaScript number \<open>x\<close>, an IEEE double, that holds a natural number. Below
  \<open>2^53\<close> the sum is exact. From \<open>2^53\<close> on \<open>x + 1\<close> is not a double and is rounded to the
  nearest double, on a tie to the one with the even significand: between \<open>2^53\<close> and \<open>2^54\<close>
  the doubles are the even numbers, \<open>x + 1\<close> lies halfway between \<open>x\<close> and \<open>x + 2\<close>, and
  the significand of \<open>x\<close> is \<open>x / 2\<close>; from \<open>2^54\<close> on \<open>x\<close> itself is the nearest. So at
  \<open>2^53\<close> the sum is \<open>2^53\<close> again.
\<close>

definition id_limit :: nat where
  "id_limit = 2 ^ 53"

definition double_succ :: "nat \<Rightarrow> nat" where
  "double_succ x =
     (if x < id_limit then x + 1
      else if x < 2 * id_limit \<and> odd (x div 2) then x + 2
      else x)"

text \<open>
  \<open>return ++this.requestId\<close>. The counter starts at 0 and changes only here, so it runs
  through 1, 2, ... up to \<open>2^53\<close> and stays there: from then on the same number is returned
  again.
\<close>

definition generateRequestId :: "RPC2Client \<Rightarrow> nat \<times> RPC2Client" where
  "generateRequestId s =
     (let n = double_succ (requestId s) in (n, s\<lparr>requestId := n\<rparr>))"

definition sendMessage :: "JSONRPC2Request \<Rightarrow> RPC2Client \<Rightarrow> rpc_error + RPC2Client" where
  "sendMessage message s =
     (case ws s of
        None \<Rightarrow> Inl WebSocketNotConnected
      | Some k \<Rightarrow>
          if socket_state s k \<noteq> Some WS_OPEN then Inl WebSocketNotConnected
          else Inr (s\<lparr>sent := sent s @ [message]\<rparr>))"

definition stopHeartbeat :: "RPC2Client \<Rightarrow> RPC2Client" where
  "stopHeartbeat s =
     (case heartbeatInterval s of
        None \<Rightarrow> s
      | Some h \<Rightarrow> (clearTimeout h s)\<lparr>heartbeatInterval := None\<rparr>)"

definition startHeartbeat :: "RPC2Client \<Rightarrow> RPC2Client" where
  "startHeartbeat s =
     (if \<not> enableHeartbeat (options s) then s
      else
        (let s1 = stopHeartbeat s;
             r = setTimeout (heartbeatIntervalMs (options s1)) HeartbeatTick s1
         in (snd r)\<lparr>heartbeatInterval := Some (fst r)\<rparr>))"

text \<open>
  The callback of the heartbeat interval, given \<open>Date.now()\<close>; a failing \<open>send\<close> is caught
  and logged.
\<close>

definition heartbeat_tick :: "real \<Rightarrow> RPC2Client \<Rightarrow> RPC2Client" where
  "heartbeat_tick date_now s =
     (case ws s of
        None \<Rightarrow> s
      | Some k \<Rightarrow>
          if socket_state s k = Some WS_OPEN
          then s\<lparr>sent := sent s @
                 [\<lparr>rpc_method = ''rpc.ping'', params = JObj [(''timestamp'', JNum date_now)],
                   request_id = IdAbsent\<rparr>]\<rparr>
          else s)"

fun clearPending ::
  "rpc_error \<Rightarrow> (rpc_id \<times> pending_call) list \<Rightarrow> RPC2Client \<Rightarrow> RPC2Client" where
  "clearPending error [] s = s"
| "clearPending error (entry # rest) s =
     (let pending = snd entry;
          s1 = (case timeout pending of None \<Rightarrow> s | Some t \<Rightarrow> clearTimeout t s)
      in clearPending error rest (settle (promise pending) (Inl error) s1))"

definition clearPendingRequests :: "rpc_error \<Rightarrow> RPC2Client \<Rightarrow> RPC2Client" where
  "clearPendingRequests error s =
     (clearPending error (pendingRequests s) s)\<lparr>pendingRequests := []\<rparr>"

definition handleMessage :: "JSONRPC2Response \<Rightarrow> RPC2Client \<Rightarrow> RPC2Client" where
  "handleMessage data s =
     (if \<not> id_truthy (response_id data) then s
      else
        (case Map_get (pendingRequests s) (response_id data) of
           None \<Rightarrow> s
         | Some pending \<Rightarrow>
             (let s1 = s\<lparr>pendingRequests := Map_delete (pendingRequests s) (response_id data)\<rparr>;
                  s2 = (case timeout pending of None \<Rightarrow> s1 | Some t \<Rightarrow> clearTimeout t s1)
              in (case payload data of
                    ErrorObject code message \<Rightarrow>
                      settle (promise pending) (Inl (RPCError code message)) s2
                  | Result result \<Rightarrow> settle (promise pending) (Inr result) s2))))"

subsection \<open>connect, disconnect and the socket handlers\<close>

datatype connect_result = Returned | Threw rpc_error | Awaiting nat

text \<open>
  \<open>connect\<close> up to its \<open>await\<close>. The flag says whether \<open>new WebSocket(wsUrl)\<close> returned a
  socket (it can throw). With a socket, the handlers of \<open>setupWebSocketHandlers\<close> are
  installed, the timeout of ten seconds is started and the \<open>open\<close>/\<open>error\<close> listeners are
  attached; the promise is settled by \<open>handleOpen\<close>, \<open>handleError\<close> or the timeout below.
\<close>

definition connect :: "bool \<Rightarrow> RPC2Client \<Rightarrow> connect_result \<times> RPC2Client" where
  "connect constructed s =
     (if connectionState s = CONNECTED \<or> connectionState s = CONNECTING then (Returned, s)
      else
        (let s1 = setConnectionState CONNECTING s in
         if \<not> constructed then
           (Threw WebSocketConstructorError,
            notify (OnError WebSocketConstructorError) (setConnectionState ERROR s1))
         else
           (let k = length (sockets s1);
                s2 = s1\<lparr>sockets := sockets s1 @ [WS_CONNECTING], ws := Some k\<rparr>;
                r = setTimeout 10000 (ConnectTimeout k) s2
            in (Awaiting k, (snd r)\<lparr>connect_waiters := (connect_waiters (snd r))(k \<mapsto> fst r)\<rparr>))))"

text \<open>The private method \<open>autoConnect\<close> (the option of the same name keeps the name).\<close>

definition autoConnect_method :: "bool \<Rightarrow> RPC2Client \<Rightarrow> RPC2Client" where
  "autoConnect_method constructed s =
     (if connectionState s \<noteq> DISCONNECTED then s else snd (connect constructed s))"

text \<open>\<open>cleanup\<close> of a running \<open>connect\<close>: clear its timeout and remove its listeners.\<close>

definition cleanup :: "nat \<Rightarrow> nat \<Rightarrow> RPC2Client \<Rightarrow> RPC2Client" where
  "cleanup k t s = (clearTimeout t s)\<lparr>connect_waiters := (connect_waiters s)(k := None)\<rparr>"

text \<open>The \<open>catch\<close> block of \<open>connect\<close>, reached when its promise is rejected.\<close>

definition connect_catch :: "rpc_error \<Rightarrow> RPC2Client \<Rightarrow> RPC2Client" where
  "connect_catch error s = notify (OnError error) (setConnectionState ERROR s)"

definition handleOpen :: "nat \<Rightarrow> RPC2Client \<Rightarrow> RPC2Client" where
  "handleOpen k s = (case connect_waiters s k of None \<Rightarrow> s | Some t \<Rightarrow> cleanup k t s)"

definition handleError :: "nat \<Rightarrow> RPC2Client \<Rightarrow> RPC2Client" where
  "handleError k s =
     (case connect_waiters s k of
        None \<Rightarrow> s
      | Some t \<Rightarrow> connect_catch WebSocketConnectFailed (cleanup k t s))"

text \<open>The callback of the timeout inside \<open>connect\<close>.\<close>

definition connect_timeout :: "nat \<Rightarrow> RPC2Client \<Rightarrow> RPC2Client" where
  "connect_timeout k s =
     (case connect_waiters s k of
        None \<Rightarrow> s
      | Some t \<Rightarrow> connect_catch WebSocketConnectTimeout (cleanup k t s))"

definition attemptReconnect :: "RPC2Client \<Rightarrow> RPC2Client" where
  "attemptReconnect s =
     (let s1 = s\<lparr>reconnectAttempts := reconnectAttempts s + 1\<rparr>;
          s2 = setConnectionState RECONNECTING s1;
          s3 = notify (OnReconnecting (reconnectAttempts s2)) s2;
          r = setTimeout (reconnectInterval (options s3)) ReconnectTimer s3
      in (snd r)\<lparr>reconnectTimeout := Some (fst r)\<rparr>)"

definition ws_onopen :: "RPC2Client \<Rightarrow> RPC2Client" where
  "ws_onopen s =
     notify OnConnect
       (startHeartbeat ((setConnectionState CONNECTED s)\<lparr>reconnectAttempts := 0\<rparr>))"

definition ws_onmessage :: "JSONRPC2Response \<Rightarrow> RPC2Client \<Rightarrow> RPC2Client" where
  "ws_onmessage data s = notify (OnMessage data) (handleMessage data s)"

definition ws_onclose :: "RPC2Client \<Rightarrow> RPC2Client" where
  "ws_onclose s =
     (let s1 = notify OnDisconnect (stopHeartbeat (setConnectionState DISCONNECTED s))
      in if autoReconnect (options s1)
            \<and> int (reconnectAttempts s1) < maxReconnectAttempts (options s1)
         then attemptReconnect s1 else s1)"

definition ws_onerror :: "RPC2Client \<Rightarrow> RPC2Client" where
  "ws_onerror s = notify (OnError WebSocketConnectionError) s"

definition disconnect :: "RPC2Client \<Rightarrow> RPC2Client" where
  "disconnect s =
     (let s1 = s\<lparr>options := (options s)\<lparr>autoReconnect := False\<rparr>\<rparr>;
          s2 = (case reconnectTimeout s1 of
                  None \<Rightarrow> s1
                | Some t \<Rightarrow> (clearTimeout t s1)\<lparr>reconnectTimeout := None\<rparr>);
          s3 = (case heartbeatInterval s2 of
                  None \<Rightarrow> s2
                | Some h \<Rightarrow> (clearTimeout h s2)\<lparr>heartbeatInterval := None\<rparr>);
          s4 = (case ws s3 of
                  None \<Rightarrow> s3
                | Some k \<Rightarrow> (socket_close k s3)\<lparr>ws := None\<rparr>);
          s5 = setConnectionState DISCONNECTED s4
      in clearPendingRequests ConnectionClosed s5)"

subsection \<open>Calls\<close>

datatype call_result = Resolved jsval | Rejected rpc_error | Pending nat

text \<open>
  \<open>callViaWebSocket\<close> up to the point where it returns its promise: already rejected
  (a \<open>throw\<close>, also one inside the promise executor, where the entry and the timer that
  were just registered stay behind), already resolved (a notification), or pending on the
  promise with the given number.
\<close>

definition callViaWebSocket ::
  "string \<Rightarrow> jsval \<Rightarrow> RPC2CallOptions \<Rightarrow> RPC2Client \<Rightarrow> call_result \<times> RPC2Client" where
  "callViaWebSocket m ps opts s =
     (if connectionState s \<noteq> CONNECTED then (Rejected WebSocketNotConnected, s)
      else if notification opts then
        (case sendMessage \<lparr>rpc_method = m, params = ps, request_id = IdAbsent\<rparr> s of
           Inl e \<Rightarrow> (Rejected e, s)
         | Inr s' \<Rightarrow> (Resolved JUndefined, s'))
      else
        (let g = generateRequestId s;
             request = \<lparr>rpc_method = m, params = ps, request_id = IdNum (int (fst g))\<rparr>;
             s1 = snd g;
             p = next_promise s1;
             s2 = s1\<lparr>next_promise := p + 1\<rparr>;
             delay = (case call_timeout opts of
                        None \<Rightarrow> requestTimeout (options s2)
                      | Some t \<Rightarrow> if t \<noteq> 0 then t else requestTimeout (options s2));
             r = setTimeout delay (RequestTimeout (request_id request) p m) s2;
             s3 = (snd r)\<lparr>pendingRequests :=
                    Map_set (pendingRequests (snd r)) (request_id request)
                      \<lparr>promise = p, timeout = Some (fst r)\<rparr>\<rparr>
         in (case sendMessage request s3 of
               Inl e \<Rightarrow> (Rejected e, s3)
             | Inr s4 \<Rightarrow> (Pending p, s4))))"

text \<open>The callback of a request timeout.\<close>

definition request_timeout :: "rpc_id \<Rightarrow> nat \<Rightarrow> string \<Rightarrow> RPC2Client \<Rightarrow> RPC2Client" where
  "request_timeout rid p m s =
     settle p (Inl (RequestTimedOut m))
       (s\<lparr>pendingRequests := Map_delete (pendingRequests s) rid\<rparr>)"

text \<open>
  What the exchange started by \<open>fetch\<close> does: \<open>fetch\<close> or \<open>response.json()\<close> throws an
  \<open>Error\<close> (a network failure, the abort of the timeout signal, a malformed body), throws
  something that is not an \<open>Error\<close>, or a response arrives with its \<open>ok\<close> flag, status,
  status text and parsed body.
\<close>

datatype http_exchange =
    ThrowsError string
  | ThrowsOther
  | HttpResponse bool int string rpc_payload

definition http_outcome ::
  "http_exchange \<Rightarrow> string \<Rightarrow> RPC2CallOptions \<Rightarrow> rpc_error + jsval" where
  "http_outcome http m opts =
     (case http of
        ThrowsError msg \<Rightarrow> Inl (FetchError msg)
      | ThrowsOther \<Rightarrow> Inl (RequestFailed m)
      | HttpResponse ok status statusText body \<Rightarrow>
          if \<not> ok then Inl (HTTPStatus status statusText)
          else if notification opts then Inr JUndefined
          else (case body of
                  ErrorObject code message \<Rightarrow> Inl (RPCError code message)
                | Result result \<Rightarrow> Inr result))"

text \<open>The request that \<open>callViaHTTP\<close> builds and hands to \<open>fetch\<close>.\<close>

definition http_request ::
  "string \<Rightarrow> jsval \<Rightarrow> RPC2CallOptions \<Rightarrow> RPC2Client \<Rightarrow> RPC2Client" where
  "http_request m ps opts s =
     (let g = (if notification opts then (IdAbsent, s)
               else (IdNum (int (fst (generateRequestId s))), snd (generateRequestId s)));
          request = \<lparr>rpc_method = m, params = ps, request_id = fst g\<rparr>
      in (snd g)\<lparr>posted := posted (snd g) @ [[request]]\<rparr>)"

definition callViaHTTP ::
  "http_exchange \<Rightarrow> string \<Rightarrow> jsval \<Rightarrow> RPC2CallOptions \<Rightarrow> RPC2Client \<Rightarrow>
   (rpc_error + jsval) \<times> RPC2Client" where
  "callViaHTTP http m ps opts s = (http_outcome http m opts, http_request m ps opts s)"

text \<open>
  The requests that \<open>batchCall\<close> builds and posts; an element of its argument is a method,
  its parameters and the notification flag.
\<close>

fun batch_requests ::
  "(string \<times> jsval \<times> bool) list \<Rightarrow> RPC2Client \<Rightarrow> JSONRPC2Request list \<times> RPC2Client" where
  "batch_requests [] s = ([], s)"
| "batch_requests (req # rest) s =
     (let g = (if snd (snd req) then (IdAbsent, s)
               else (IdNum (int (fst (generateRequestId s))), snd (generateRequestId s)));
          r = batch_requests rest (snd g)
      in (\<lparr>rpc_method = fst req, params = fst (snd req), request_id = fst g\<rparr> # fst r, snd r))"

definition batchCall :: "(string \<times> jsval \<times> bool) list \<Rightarrow> RPC2Client \<Rightarrow> RPC2Client" where
  "batchCall requests s =
     (let r = batch_requests requests s in (snd r)\<lparr>posted := posted (snd r) @ [fst r]\<rparr>)"

datatype carrier = ViaWebSocket | ViaHTTP

text \<open>The outcome of the duplex attempt: of the promise that \<open>callViaWebSocket\<close> returned.\<close>

definition duplex_outcome :: "call_result \<Rightarrow> rpc_error + jsval \<Rightarrow> rpc_error + jsval" where
  "duplex_outcome r ws_settlement =
     (case r of Resolved v \<Rightarrow> Inr v | Rejected e \<Rightarrow> Inl e | Pending p \<Rightarrow> ws_settlement)"

text \<open>
  \<open>call\<close>. The arguments \<open>constructed\<close> and \<open>http\<close> are as above; \<open>ws_settlement\<close> is the way
  the pending promise of the duplex attempt is settled in the end (by a response, by its
  timeout or by \<open>disconnect\<close>). The result is the outcome of the promise that \<open>call\<close>
  returns, the carriers attempted in order, and the client state after the last carrier
  was invoked (events that arrive while the duplex promise is pending are not part of
  this function).
\<close>

definition call ::
  "bool \<Rightarrow> rpc_error + jsval \<Rightarrow> http_exchange \<Rightarrow> string \<Rightarrow> jsval \<Rightarrow> RPC2CallOptions \<Rightarrow>
   RPC2Client \<Rightarrow> (rpc_error + jsval) \<times> carrier list \<times> RPC2Client" where
  "call constructed ws_settlement http m ps opts s =
     (let s1 = (if autoConnect (options s) \<and> connectionState s = DISCONNECTED
                then autoConnect_method constructed s else s)
      in
      if connectionState s1 = CONNECTED then
        (let w = callViaWebSocket m ps opts s1;
             attempt = duplex_outcome (fst w) ws_settlement
         in (case attempt of
               Inr v \<Rightarrow> (Inr v, [ViaWebSocket], snd w)
             | Inl wsErr \<Rightarrow>
                 (let h = callViaHTTP http m ps opts (snd w)
                  in (fst h, [ViaWebSocket, ViaHTTP], snd h))))
      else
        (let h = callViaHTTP http m ps opts s1 in (fst h, [ViaHTTP], snd h)))"

subsection \<open>The client as an event-driven machine\<close>

text \<open>
  Everything that can happen to a client, one event-loop task each: the public methods
  are called, a socket that the client constructed opens, fails, starts closing, closes or
  delivers a message, and an active timer fires.
\<close>

datatype event =
    Connect bool
  | Disconnect
  | CallViaWebSocket string jsval RPC2CallOptions
  | CallViaHTTP http_exchange string jsval RPC2CallOptions
  | BatchCall "(string \<times> jsval \<times> bool) list"
  | Call bool string jsval RPC2CallOptions
  | SocketOpen nat
  | SocketError nat
  | SocketClosing nat
  | SocketClose nat
  | SocketMessage nat JSONRPC2Response
  | TimerFires nat bool real

text \<open>
  The synchronous part of \<open>call\<close>: the state after the first carrier was invoked. The
  fallback of a failed duplex attempt runs later, as a \<open>CallViaHTTP\<close> event.
\<close>

definition call_begin ::
  "bool \<Rightarrow> string \<Rightarrow> jsval \<Rightarrow> RPC2CallOptions \<Rightarrow> RPC2Client \<Rightarrow> RPC2Client" where
  "call_begin constructed m ps opts s =
     (let s1 = (if autoConnect (options s) \<and> connectionState s = DISCONNECTED
                then autoConnect_method constructed s else s)
      in if connectionState s1 = CONNECTED then snd (callViaWebSocket m ps opts s1)
         else http_request m ps opts s1)"

text \<open>
  The callback of timer \<open>t\<close> runs. A timeout is gone once it has fired; the heartbeat is an
  interval and stays.
\<close>

definition run_timer ::
  "nat \<Rightarrow> timer_callback \<Rightarrow> bool \<Rightarrow> real \<Rightarrow> RPC2Client \<Rightarrow> RPC2Client" where
  "run_timer t cb constructed date_now s =
     (case cb of
        RequestTimeout rid p m \<Rightarrow> request_timeout rid p m (clearTimeout t s)
      | ReconnectTimer \<Rightarrow> snd (connect constructed (clearTimeout t s))
      | HeartbeatTick \<Rightarrow> heartbeat_tick date_now s
      | ConnectTimeout k \<Rightarrow> connect_timeout k (clearTimeout t s))"

fun step :: "event \<Rightarrow> RPC2Client \<Rightarrow> RPC2Client" where
  "step (Connect constructed) s = snd (connect constructed s)"
| "step Disconnect s = disconnect s"
| "step (CallViaWebSocket m ps opts) s = snd (callViaWebSocket m ps opts s)"
| "step (CallViaHTTP http m ps opts) s = snd (callViaHTTP http m ps opts s)"
| "step (BatchCall requests) s = batchCall requests s"
| "step (Call constructed m ps opts) s = call_begin constructed m ps opts s"
| "step (SocketOpen k) s =
     (if socket_state s k = Some WS_CONNECTING
      then handleOpen k (ws_onopen (set_socket_state k WS_OPEN s)) else s)"
| "step (SocketError k) s =
     (if socket_state s k = None \<or> socket_state s k = Some WS_CLOSED then s
      else handleError k (ws_onerror s))"
| "step (SocketClosing k) s =
     (if socket_state s k = Some WS_OPEN then set_socket_state k WS_CLOSING s else s)"
| "step (SocketClose k) s =
     (if socket_state s k = None \<or> socket_state s k = Some WS_CLOSED then s
      else ws_onclose (set_socket_state k WS_CLOSED s))"
| "step (SocketMessage k data) s =
     (if socket_state s k = Some WS_OPEN \<or> socket_state s k = Some WS_CLOSING
      then ws_onmessage data s else s)"
| "step (TimerFires t constructed date_now) s =
     (case timers s t of
        None \<Rightarrow> s
      | Some entry \<Rightarrow> run_timer t (snd entry) constructed date_now s)"

definition run :: "event list \<Rightarrow> RPC2Client \<Rightarrow> RPC2Client" where
  "run events s = foldl (\<lambda>s e. step e s) s events"

text \<open>The constructor: the fields as initialised, then \<open>autoConnect\<close> when the option is set.\<close>

definition new_RPC2Client :: "bool \<Rightarrow> RPC2ConnectionOptions \<Rightarrow> RPC2Client" where
  "new_RPC2Client constructed opts =
     (let s = \<lparr>ws = None, connectionState = DISCONNECTED, requestId = 0, pendingRequests = [],
               reconnectAttempts = 0, reconnectTimeout = None, heartbeatInterval = None,
               options = opts, sockets = [], connect_waiters = Map.empty, timers = Map.empty,
               next_timer = 1, next_promise = 0, settled = [], sent = [], posted = [],
               notified = []\<rparr>
      in if autoConnect opts then autoConnect_method constructed s else s)"

subsection \<open>Invariants of the correlation table\<close>

text \<open>
  The first invariant is about promises and does not depend on the ids being fresh. The
  promise of an entry of \<open>pendingRequests\<close> is unsettled and belongs to that entry alone;
  the promise of an active request timeout is unsettled and belongs to that timer alone;
  when a promise has both an entry and an active timeout, the entry holds the handle of
  that timeout under the id of that timeout; no promise was settled twice, and every
  settled promise has been created.
\<close>

definition entries_ok :: "RPC2Client \<Rightarrow> bool" where
  "entries_ok s \<longleftrightarrow>
     (\<forall>k pe. (k, pe) \<in> set (pendingRequests s) \<longrightarrow>
         promise pe < next_promise s \<and> promise pe \<notin> fst ` set (settled s))"

definition promises_ok :: "RPC2Client \<Rightarrow> bool" where
  "promises_ok s \<longleftrightarrow>
     (\<forall>k k' pe pe'. (k, pe) \<in> set (pendingRequests s) \<and> (k', pe') \<in> set (pendingRequests s)
         \<and> promise pe = promise pe' \<longrightarrow> k = k')"

definition timeouts_ok :: "RPC2Client \<Rightarrow> bool" where
  "timeouts_ok s \<longleftrightarrow>
     (\<forall>t d k p m. timers s t = Some (d, RequestTimeout k p m) \<longrightarrow>
         p < next_promise s \<and> p \<notin> fst ` set (settled s))
   \<and> (\<forall>t t' d d' k k' p m m'.
         timers s t = Some (d, RequestTimeout k p m)
       \<and> timers s t' = Some (d', RequestTimeout k' p m') \<longrightarrow> t = t')"

definition linked_ok :: "RPC2Client \<Rightarrow> bool" where
  "linked_ok s \<longleftrightarrow>
     (\<forall>k pe t d k' m. (k, pe) \<in> set (pendingRequests s)
         \<and> timers s t = Some (d, RequestTimeout k' (promise pe) m) \<longrightarrow>
         timeout pe = Some t \<and> k' = k)"

definition settled_ok :: "RPC2Client \<Rightarrow> bool" where
  "settled_ok s \<longleftrightarrow>
     distinct (map fst (settled s)) \<and> (\<forall>p \<in> fst ` set (settled s). p < next_promise s)"

definition client_inv :: "RPC2Client \<Rightarrow> bool" where
  "client_inv s \<longleftrightarrow>
     distinct (map fst (pendingRequests s)) \<and> entries_ok s \<and> promises_ok s \<and> timeouts_ok s
   \<and> linked_ok s \<and> settled_ok s"

text \<open>
  The second invariant is about the ids. The counter never exceeds \<open>2^53\<close>; the keys of
  \<open>pendingRequests\<close> and the ids of the requests sent over the socket are integers between
  1 and the counter; while the counter is below \<open>2^53\<close>, the ids sent are strictly
  increasing.
\<close>

definition sent_ids :: "RPC2Client \<Rightarrow> int list" where
  "sent_ids s =
     List.map_filter (\<lambda>r. case request_id r of IdNum n \<Rightarrow> Some n | _ \<Rightarrow> None) (sent s)"

definition ids_ok :: "RPC2Client \<Rightarrow> bool" where
  "ids_ok s \<longleftrightarrow>
     requestId s \<le> id_limit
   \<and> (\<forall>k \<in> fst ` set (pendingRequests s). \<exists>n. k = IdNum (int n) \<and> 1 \<le> n \<and> n \<le> requestId s)
   \<and> (\<forall>n \<in> set (sent_ids s). 1 \<le> n \<and> n \<le> int (requestId s))
   \<and> (requestId s < id_limit \<longrightarrow> sorted_wrt (<) (sent_ids s))"

text \<open>
  A step that leaves the correlation table, the settlements, the promise counter and the
  ids sent alone, does not lower the request counter nor take it beyond \<open>2^53\<close>, and starts
  no request timeout.
\<close>

definition frame :: "RPC2Client \<Rightarrow> RPC2Client \<Rightarrow> bool" where
  "frame s s' \<longleftrightarrow>
     pendingRequests s' = pendingRequests s
   \<and> settled s' = settled s
   \<and> next_promise s' = next_promise s
   \<and> sent_ids s' = sent_ids s
   \<and> requestId s \<le> requestId s'
   \<and> (requestId s \<le> id_limit \<longrightarrow> requestId s' \<le> id_limit)
   \<and> (\<forall>t d k p m. timers s' t = Some (d, RequestTimeout k p m) \<longrightarrow>
         timers s t = Some (d, RequestTimeout k p m))"

text \<open>
  A step that issues no id and sends nothing with an id over the socket: the keys of the
  table do not grow, the ids sent stay, and the counter does not fall nor pass \<open>2^53\<close>.
\<close>

definition id_frame :: "RPC2Client \<Rightarrow> RPC2Client \<Rightarrow> bool" where
  "id_frame s s' \<longleftrightarrow>
     fst ` set (pendingRequests s') \<subseteq> fst ` set (pendingRequests s)
   \<and> sent_ids s' = sent_ids s
   \<and> requestId s \<le> requestId s'
   \<and> (requestId s \<le> id_limit \<longrightarrow> requestId s' \<le> id_limit)"

text \<open>
  The request object that \<open>callViaWebSocket\<close> and \<open>callViaHTTP\<close> build when called in state
  \<open>s\<close>: the method, the parameters, and the next id unless the call is a notification.
\<close>

definition request_of ::
  "string \<Rightarrow> jsval \<Rightarrow> RPC2CallOptions \<Rightarrow> RPC2Client \<Rightarrow> JSONRPC2Request" where
  "request_of m ps opts s =
     \<lparr>rpc_method = m, params = ps,
      request_id = (if notification opts then IdAbsent
                    else IdNum (int (fst (generateRequestId s))))\<rparr>"

text \<open>The guard of \<open>sendMessage\<close>: there is a socket and its \<open>readyState\<close> is \<open>OPEN\<close>.\<close>

definition socket_open :: "RPC2Client \<Rightarrow> bool" where
  "socket_open s = (case ws s of None \<Rightarrow> False | Some k \<Rightarrow> socket_state s k = Some WS_OPEN)"

text \<open>\<open>disconnect\<close> without its last statement, the call of \<open>clearPendingRequests\<close>.\<close>

definition disconnect_prefix :: "RPC2Client \<Rightarrow> RPC2Client" where
  "disconnect_prefix s =
     (let s1 = s\<lparr>options := (options s)\<lparr>autoReconnect := False\<rparr>\<rparr>;
          s2 = (case reconnectTimeout s1 of
                  None \<Rightarrow> s1
                | Some t \<Rightarrow> (clearTimeout t s1)\<lparr>reconnectTimeout := None\<rparr>);
          s3 = (case heartbeatInterval s2 of
                  None \<Rightarrow> s2
                | Some h \<Rightarrow> (clearTimeout h s2)\<lparr>heartbeatInterval := None\<rparr>);
          s4 = (case ws s3 of
                  None \<Rightarrow> s3
                | Some k \<Rightarrow> (socket_close k s3)\<lparr>ws := None\<rparr>)
      in setConnectionState DISCONNECTED s4)"

subsection \<open>Concrete clients\<close>

text \<open>A client built with the default options whose first socket has opened.\<close>

definition connected_client :: RPC2Client where
  "connected_client = run [SocketOpen 0] (new_RPC2Client True default_options)"

definition plain_call :: RPC2CallOptions where
  "plain_call = \<lparr>call_timeout = None, notification = False\<rparr>"

text \<open>The same client after one correlated call over the socket, still pending.\<close>

definition waiting_client :: RPC2Client where
  "waiting_client = run [CallViaWebSocket ''m'' JNull plain_call] connected_client"

text \<open>
  A run that uses up the ids: the first socket opens, then \<open>2^53\<close> correlated calls go over
  HTTP (each fails at once).
\<close>

definition exhausting_run :: "event list" where
  "exhausting_run =
     SocketOpen 0 # replicate id_limit (CallViaHTTP ThrowsOther ''m'' JNull plain_call)"

text \<open>
  A client that is still \<open>CONNECTED\<close> while its socket is closing, and a client with a
  pending call whose socket has closed, so that it waits to reconnect.
\<close>

definition closing_client :: RPC2Client where
  "closing_client = run [SocketClosing 0] connected_client"

definition reconnecting_client :: RPC2Client where
  "reconnecting_client = run [SocketClose 0] waiting_client"

section \<open>Properties of the reconciliation\<close>

subsection \<open>The status map and the roster pass\<close>

lemma map_of_Map_delete: "map_of (Map_delete m k) k' = (if k' = k then None else map_of m k')"
  by (induction m) (auto simp: Map_delete_def)

lemma Map_new_distinct_aux:
  "distinct (map fst (m @ es)) \<Longrightarrow> foldl (\<lambda>m e. Map_set m (fst e) (snd e)) m es = m @ es"
  by (induction es arbitrary: m) (auto simp: Map_set_def)

lemma Map_new_distinct: "distinct (map fst es) \<Longrightarrow> Map_new es = es"
  using Map_new_distinct_aux [of "[]" es] by (simp add: Map_new_def)

lemma filter_absent_key:
  "k \<notin> fst ` set m \<Longrightarrow> filter (\<lambda>e. fst e \<noteq> k \<and> P e) m = filter P m"
  by (rule filter_cong) auto

lemma roster_pass_snd:
  "snd (roster_pass rt cache m) = filter (\<lambda>e. fst e \<notin> set (map uuid cache)) m"
  by (induction cache arbitrary: m)
     (auto simp: Let_def Map_has_def Map_delete_def filter_absent_key)

lemma roster_pass_length: "length (fst (roster_pass rt cache m)) = length cache"
  by (induction cache arbitrary: m) (auto simp: Let_def)

lemma roster_pass_nth:
  "i < length cache \<Longrightarrow>
   fst (roster_pass rt cache m) ! i =
     roster_server rt (cache ! i)
       (if uuid (cache ! i) \<in> set (map uuid (take i cache)) then None
        else map_of m (uuid (cache ! i)))"
proof (induction cache arbitrary: m i)
  case Nil
  then show ?case by simp
next
  case (Cons s rest)
  show ?case
  proof (cases i)
    case 0
    then show ?thesis by (simp add: Let_def Map_get_def)
  next
    case (Suc j)
    with Cons.prems have j: "j < length rest" by simp
    have absent: "uuid s \<notin> fst ` set m \<Longrightarrow> map_of m (uuid s) = None"
      by (simp add: map_of_eq_None_iff)
    show ?thesis
      using Cons.IH [OF j] Suc absent
      by (auto simp: Let_def Map_has_def map_of_Map_delete)
  qed
qed

lemma map_fst_Map_set:
  "map fst (Map_set m k v) = (if k \<in> set (map fst m) then map fst m else map fst m @ [k])"
proof -
  have "map fst (map (\<lambda>e. if fst e = k then (k, v) else e) m) = map fst m"
    by (induction m) auto
  then show ?thesis by (simp add: Map_set_def)
qed

lemma keys_Map_set: "fst ` set (Map_set m k v) = insert k (fst ` set m)"
  using map_fst_Map_set [of m k v] by (metis (no_types, lifting) insert_absorb list.set_map
      list.simps(15) rotate1.simps(2) set_rotate1)

lemma keys_foldl_Map_set:
  "fst ` set (foldl (\<lambda>m e. Map_set m (fst e) (snd e)) m es) = fst ` set m \<union> fst ` set es"
  by (induction es arbitrary: m) (auto simp: keys_Map_set)

lemma keys_Map_new: "fst ` set (Map_new es) = fst ` set es"
  by (simp add: Map_new_def keys_foldl_Map_set)

lemma roster_pass_fst_distinct:
  assumes "distinct (map uuid cache)"
  shows "fst (roster_pass rt cache m) = map (\<lambda>s. roster_server rt s (map_of m (uuid s))) cache"
proof (rule nth_equalityI)
  show "length (fst (roster_pass rt cache m)) =
        length (map (\<lambda>s. roster_server rt s (map_of m (uuid s))) cache)"
    by (simp add: roster_pass_length)
next
  fix i assume "i < length (fst (roster_pass rt cache m))"
  then have i: "i < length cache" by (simp add: roster_pass_length)
  have "uuid (cache ! i) \<notin> set (map uuid (take i cache))"
  proof -
    have "distinct (map uuid (take i cache @ drop i cache))" using assms by simp
    moreover have "uuid (cache ! i) \<in> set (map uuid (drop i cache))"
      using i by (metis Cons_nth_drop_Suc list.set_intros(1) list.simps(9))
    ultimately show ?thesis by (auto simp del: append_take_drop_id)
  qed
  then show "fst (roster_pass rt cache m) ! i =
             map (\<lambda>s. roster_server rt s (map_of m (uuid s))) cache ! i"
    using i by (simp add: roster_pass_nth)
qed

lemma komari_servers_plan:
  assumes "distinct (map uuid cache)" "distinct (map fst data)"
  shows "servers (komariToNezhaWebsocketResponse rt cache data) =
         map (build_entity rt) (reconcile_plan cache data)"
proof (cases "cache = []")
  case True
  then show ?thesis
    by (simp add: komariToNezhaWebsocketResponse_def reconcile_plan_def comp_def)
next
  case False
  then show ?thesis
    using assms
    by (simp add: komariToNezhaWebsocketResponse_def reconcile_plan_def Let_def comp_def
        Map_new_distinct roster_pass_fst_distinct roster_pass_snd)
qed

lemma matched_feed_le_roster:
  assumes "distinct (map fst data)"
  shows "length (filter (\<lambda>e. fst e \<in> set (map uuid cache)) data) \<le> length cache"
proof -
  let ?hit = "filter (\<lambda>e. fst e \<in> set (map uuid cache)) data"
  have d: "distinct (map fst ?hit)" using assms by (simp add: distinct_map_filter)
  have "length ?hit = card (set (map fst ?hit))"
    using d by (metis distinct_card length_map)
  also have "\<dots> \<le> card (set (map uuid cache))"
    by (rule card_mono) auto
  also have "\<dots> \<le> length cache"
    by (metis card_length length_map)
  finally show ?thesis .
qed

lemma plan_keys_distinct:
  assumes "distinct (map uuid cache)" "distinct (map fst data)"
  shows "distinct (map source_key (reconcile_plan cache data))"
  using assms by (auto simp: reconcile_plan_def comp_def distinct_map_filter)

lemma plan_keys_set:
  "set (map source_key (reconcile_plan cache data)) = set (map uuid cache) \<union> set (map fst data)"
  by (auto simp: reconcile_plan_def image_iff)

lemma plan_length:
  "length (reconcile_plan cache data) =
   length cache + length (filter (\<lambda>e. fst e \<notin> set (map uuid cache)) data)"
  by (simp add: reconcile_plan_def)

lemma example_props [simp]:
  "props (example_node k kvs) f = (case map_of kvs f of None \<Rightarrow> JUndefined | Some v \<Rightarrow> v)"
  "uuid (example_node k kvs) = utf16 k"
  "region (example_node k kvs) = []"
  "status_props (example_status kvs) f = (case map_of kvs f of None \<Rightarrow> JUndefined | Some v \<Rightarrow> v)"
  "status_region (example_status kvs) = None"
  by (simp_all add: example_node_def example_status_def)

lemma map_of_Map_new_absent: "k \<notin> set (map fst data) \<Longrightarrow> map_of (Map_new data) k = None"
  using keys_Map_new [of data] by (simp add: map_of_eq_None_iff)

lemma komari_servers_roster_nth:
  assumes "cache \<noteq> []" "i < length cache"
  shows "servers (komariToNezhaWebsocketResponse rt cache data) ! i =
         roster_server rt (cache ! i)
           (if uuid (cache ! i) \<in> set (map uuid (take i cache)) then None
            else map_of (Map_new data) (uuid (cache ! i)))"
  using assms
  by (simp add: komariToNezhaWebsocketResponse_def Let_def nth_append roster_pass_length
      roster_pass_nth)

lemma komari_servers_drop:
  assumes "cache \<noteq> []"
  shows "drop (length cache) (servers (komariToNezhaWebsocketResponse rt cache data)) =
         map (status_server rt)
           (filter (\<lambda>e. fst e \<notin> set (map uuid cache)) (Map_new data))"
  using assms
  by (simp add: komariToNezhaWebsocketResponse_def Let_def roster_pass_length roster_pass_snd)

lemma roster_server_None:
  "state (roster_server rt server None) = offline_state"
  "last_active (roster_server rt server None) = JStr (utf16 ''0000-00-00T00:00:00Z'')"
  "boot_time (host (roster_server rt server None)) = JNum 0"
  by (simp_all add: roster_server_def Let_def)

lemma zero_timestamp_string:
  "last_active_time_string format parseISOTimestamp (utf16 ''0000-00-00T00:00:00Z'') = []"
  by (simp add: last_active_time_string_def lastActiveTime_def startsWith_def utf16_def)

lemma komari_eval:
  "cache \<noteq> [] \<Longrightarrow> servers (komariToNezhaWebsocketResponse rt cache data) =
     fst (roster_pass rt cache (Map_new data)) @
     map (status_server rt) (snd (roster_pass rt cache (Map_new data)))"
  by (simp add: komariToNezhaWebsocketResponse_def Let_def)

lemma temperatures_of_cold:
  "temp = JUndefined \<or> temp = JNull \<or> temp = JNum 0 \<Longrightarrow> temperatures_of rt temp = []"
  by (auto simp: temperatures_of_def js_gt_zero_def)

lemma temperatures_of_nonzero:
  "t \<in> set (temperatures_of rt temp) \<Longrightarrow> Temperature t \<noteq> JNum 0"
  by (auto simp: temperatures_of_def js_gt_zero_def split: if_splits)

lemma status_state_policy:
  "temperatures (status_state rt guard st) = temperatures_of rt (status_props st ''temp'')"
  "status_props st ''gpu'' = JNum g \<Longrightarrow>
     gpu (status_state rt guard st) = (if guard then [JNum g] else [])"
  by (simp_all add: status_state_def Let_def is_number_def)

subsection \<open>Every key exactly once\<close>

text \<open>
  Claim C2. With a cached roster (and on the path without one, where the roster is empty
  and the plan is the live feed itself), the output of
  \<open>komariToNezhaWebsocketResponse\<close> is built entity by entity from \<open>reconcile_plan\<close>: one
  entity per roster entry, merged with the live-status record of the same key when there is
  one, followed by one synthesised entity per live-status key that no roster entry has. The
  keys of the plan are pairwise distinct and are exactly the roster keys together with the
  live-feed keys, so every roster key and every live-feed key is the source of exactly one
  output entity, none is dropped, and the output is at least as long as the roster and as
  the live feed. Roster keys are unique identifiers and the live feed is the entry list of
  an object, hence the two distinctness hypotheses. (An output entity carries
  \<open>uuidToNumber\<close> of its key, not the key, so the key of an entity is read from the plan.)
\<close>

theorem reconciliation_keys_once:
  assumes "distinct (map uuid km_servers_cache)"
    and "distinct (map fst data)"
  shows "servers (komariToNezhaWebsocketResponse rt km_servers_cache data) =
           map (build_entity rt) (reconcile_plan km_servers_cache data)
       \<and> distinct (map source_key (reconcile_plan km_servers_cache data))
       \<and> set (map source_key (reconcile_plan km_servers_cache data)) =
           set (map uuid km_servers_cache) \<union> set (map fst data)
       \<and> length km_servers_cache \<le>
           length (servers (komariToNezhaWebsocketResponse rt km_servers_cache data))
       \<and> length data \<le>
           length (servers (komariToNezhaWebsocketResponse rt km_servers_cache data))"
proof -
  let ?out = "servers (komariToNezhaWebsocketResponse rt km_servers_cache data)"
  have plan: "?out = map (build_entity rt) (reconcile_plan km_servers_cache data)"
    using assms by (rule komari_servers_plan)
  have len: "length ?out = length km_servers_cache +
      length (filter (\<lambda>e. fst e \<notin> set (map uuid km_servers_cache)) data)"
    by (simp add: plan plan_length)
  have split: "length data =
      length (filter (\<lambda>e. fst e \<in> set (map uuid km_servers_cache)) data) +
      length (filter (\<lambda>e. fst e \<notin> set (map uuid km_servers_cache)) data)"
    using sum_length_filter_compl [of "\<lambda>e. fst e \<in> set (map uuid km_servers_cache)" data]
    by simp
  have feed: "length data \<le> length ?out"
    using len split matched_feed_le_roster [OF assms(2), of km_servers_cache] by linarith
  show ?thesis
    using plan len feed plan_keys_distinct [OF assms] plan_keys_set by simp
qed

theorem reconciliation_keys_once_witness:
  "distinct (map uuid [example_node ''a'' [(''weight'', JNum 5)],
                          example_node ''b'' [(''weight'', JNum 1)]])
   \<and> distinct (map fst [(utf16 ''a'', example_status [(''cpu'', JNum 10)]),
                         (utf16 ''c'', example_status [(''cpu'', JNum 99)])])
   \<and> map (\<lambda>e. cpu (state e))
        (servers (komariToNezhaWebsocketResponse example_runtime
           [example_node ''a'' [(''weight'', JNum 5)], example_node ''b'' [(''weight'', JNum 1)]]
           [(utf16 ''a'', example_status [(''cpu'', JNum 10)]),
            (utf16 ''c'', example_status [(''cpu'', JNum 99)])]))
       = [JNum 10, JNum 0, JNum 99]
   \<and> map source_key (reconcile_plan
           [example_node ''a'' [(''weight'', JNum 5)], example_node ''b'' [(''weight'', JNum 1)]]
           [(utf16 ''a'', example_status [(''cpu'', JNum 10)]),
            (utf16 ''c'', example_status [(''cpu'', JNum 99)])])
       = [utf16 ''a'', utf16 ''b'', utf16 ''c'']"
proof -
  let ?cache = "[example_node ''a'' [(''weight'', JNum 5)], example_node ''b'' [(''weight'', JNum 1)]]"
  let ?data = "[(utf16 ''a'', example_status [(''cpu'', JNum 10)]),
                (utf16 ''c'', example_status [(''cpu'', JNum 99)])]"
  have h2: "distinct (map uuid ?cache)" by (simp add: utf16_def)
  have h3: "distinct (map fst ?data)" by (simp add: utf16_def)
  have plan: "reconcile_plan ?cache ?data =
      [FromRoster (example_node ''a'' [(''weight'', JNum 5)]) (Some (example_status [(''cpu'', JNum 10)])),
       FromRoster (example_node ''b'' [(''weight'', JNum 1)]) None,
       FromFeed (utf16 ''c'') (example_status [(''cpu'', JNum 99)])]"
    by (simp add: reconcile_plan_def utf16_def)
  have "servers (komariToNezhaWebsocketResponse example_runtime ?cache ?data) =
        map (build_entity example_runtime) (reconcile_plan ?cache ?data)"
    by (rule reconciliation_keys_once [OF h2 h3, of example_runtime, THEN conjunct1])
  then have "map (\<lambda>e. cpu (state e))
        (servers (komariToNezhaWebsocketResponse example_runtime ?cache ?data))
       = [JNum 10, JNum 0, JNum 99]"
    by (simp add: plan roster_server_def status_server_def status_state_def offline_state_def
        js_or_def Let_def)
  then show ?thesis using h2 h3 by (simp add: plan)
qed

subsection \<open>Order of the output\<close>

text \<open>
  Claim C3, as amended. The source never sorts the roster. With a cached roster, the
  \<open>i\<close>-th output entity is built from the \<open>i\<close>-th entry of the cache as it stands (same
  id, same name), and carries \<open>display_index = -weight || 0\<close>, the negated weight of that
  entry; the entities after the roster part are the live-status entries whose key no roster
  entry has, in the order of the status map, each with \<open>display_index = 0\<close>.
\<close>

theorem roster_entries_in_cache_order:
  assumes "km_servers_cache \<noteq> []"
  shows "(\<forall>i<length km_servers_cache.
            sid (servers (komariToNezhaWebsocketResponse rt km_servers_cache data) ! i) =
              uuidToNumber (uuid (km_servers_cache ! i))
          \<and> name (servers (komariToNezhaWebsocketResponse rt km_servers_cache data) ! i) =
              props (km_servers_cache ! i) ''name''
          \<and> display_index (servers (komariToNezhaWebsocketResponse rt km_servers_cache data) ! i) =
              js_neg_or_zero rt (props (km_servers_cache ! i) ''weight''))
       \<and> drop (length km_servers_cache)
            (servers (komariToNezhaWebsocketResponse rt km_servers_cache data)) =
           map (status_server rt)
             (filter (\<lambda>e. fst e \<notin> set (map uuid km_servers_cache)) (Map_new data))"
proof -
  have "sid (roster_server rt s st) = uuidToNumber (uuid s)
      \<and> name (roster_server rt s st) = props s ''name''
      \<and> display_index (roster_server rt s st) = js_neg_or_zero rt (props s ''weight'')"
    for s st
    by (simp add: roster_server_def Let_def)
  then show ?thesis
    using komari_servers_roster_nth [OF assms, of _ rt data] komari_servers_drop [OF assms, of rt data]
    by simp
qed

theorem roster_entries_in_cache_order_witness:
  "[example_node ''a'' [(''weight'', JNum 1)], example_node ''b'' [(''weight'', JNum 5)]] \<noteq> []
   \<and> display_index (servers (komariToNezhaWebsocketResponse example_runtime
        [example_node ''a'' [(''weight'', JNum 1)], example_node ''b'' [(''weight'', JNum 5)]]
        [(utf16 ''c'', example_status [])]) ! 0) = - 1
   \<and> display_index (servers (komariToNezhaWebsocketResponse example_runtime
        [example_node ''a'' [(''weight'', JNum 1)], example_node ''b'' [(''weight'', JNum 5)]]
        [(utf16 ''c'', example_status [])]) ! 1) = - 5
   \<and> map display_index (drop 2 (servers (komariToNezhaWebsocketResponse example_runtime
        [example_node ''a'' [(''weight'', JNum 1)], example_node ''b'' [(''weight'', JNum 5)]]
        [(utf16 ''c'', example_status [])]))) = [0]"
proof -
  let ?cache = "[example_node ''a'' [(''weight'', JNum 1)], example_node ''b'' [(''weight'', JNum 5)]]"
  let ?data = "[(utf16 ''c'', example_status [])]"
  let ?out = "servers (komariToNezhaWebsocketResponse example_runtime ?cache ?data)"
  have h1: "?cache \<noteq> []" by simp
  note w = roster_entries_in_cache_order [OF h1, of example_runtime ?data]
  have d: "map display_index (drop 2 ?out) = [0]"
    using w [THEN conjunct2] by (simp add: Map_new_def Map_set_def utf16_def status_server_def numeral_2_eq_2)
  have i0: "display_index (?out ! 0) = - 1"
    using w [THEN conjunct1] by (simp add: js_neg_or_zero_def)
  have i1: "display_index (?out ! 1) = - 5"
    using w [THEN conjunct1] by (simp add: js_neg_or_zero_def)
  show ?thesis using h1 i0 i1 d by blast
qed

text \<open>
  Claim C3 as stated fails: for the cached roster \<open>[a (weight 1), b (weight 5)]\<close> and an
  empty live feed the output lists \<open>a\<close> before \<open>b\<close>, display indices \<open>-1\<close> and \<open>-5\<close>:
  ascending weight, not descending.
\<close>

theorem roster_sorted_by_weight_counterexample:
  "map name (servers (komariToNezhaWebsocketResponse example_runtime
      [example_node ''a'' [(''name'', JStr (utf16 ''a'')), (''weight'', JNum 1)],
       example_node ''b'' [(''name'', JStr (utf16 ''b'')), (''weight'', JNum 5)]] []))
     = [JStr (utf16 ''a''), JStr (utf16 ''b'')]
   \<and> map display_index (servers (komariToNezhaWebsocketResponse example_runtime
      [example_node ''a'' [(''name'', JStr (utf16 ''a'')), (''weight'', JNum 1)],
       example_node ''b'' [(''name'', JStr (utf16 ''b'')), (''weight'', JNum 5)]] []))
     = [- 1, - 5]
   \<and> \<not> sorted_wrt (\<lambda>x y. - display_index x \<ge> - display_index y)
        (servers (komariToNezhaWebsocketResponse example_runtime
      [example_node ''a'' [(''name'', JStr (utf16 ''a'')), (''weight'', JNum 1)],
       example_node ''b'' [(''name'', JStr (utf16 ''b'')), (''weight'', JNum 5)]] []))"
  by (simp add: komari_eval Map_new_def Map_get_def Map_has_def Let_def roster_server_def
      js_neg_or_zero_def example_runtime_def)

subsection \<open>Roster entries without live data\<close>

text \<open>
  Claim C7. With a cached roster, the entity of a roster entry whose key is absent from the
  live-status mapping has the all-zero state (cpu, memory, swap, disk, network transfers
  and speeds, uptime, loads, connection counts and process count are \<open>0\<close>, the temperature
  and GPU lists are empty) and the last-active marker \<open>0000-00-00T00:00:00Z\<close>, the
  placeholder that \<open>formatNezhaInfo\<close> reads as "no timestamp": its
  \<open>last_active_time_string\<close> is the empty string.
\<close>

theorem offline_roster_entry:
  assumes "km_servers_cache \<noteq> []"
    and "i < length km_servers_cache"
    and "uuid (km_servers_cache ! i) \<notin> set (map fst data)"
  shows "state (servers (komariToNezhaWebsocketResponse rt km_servers_cache data) ! i) =
           \<lparr>cpu = JNum 0, mem_used = JNum 0, swap_used = JNum 0, disk_used = JNum 0,
            net_in_transfer = JNum 0, net_out_transfer = JNum 0, net_in_speed = JNum 0,
            net_out_speed = JNum 0, uptime = JNum 0, load_1 = JNum 0, load_5 = JNum 0,
            load_15 = JNum 0, tcp_conn_count = JNum 0, udp_conn_count = JNum 0,
            process_count = JNum 0, temperatures = [], gpu = []\<rparr>
       \<and> last_active (servers (komariToNezhaWebsocketResponse rt km_servers_cache data) ! i) =
           JStr (utf16 ''0000-00-00T00:00:00Z'')
       \<and> last_active_time_string format parseISOTimestamp (utf16 ''0000-00-00T00:00:00Z'') = []"
proof -
  have "servers (komariToNezhaWebsocketResponse rt km_servers_cache data) ! i =
        roster_server rt (km_servers_cache ! i) None"
    using komari_servers_roster_nth [OF assms(1,2), of rt data] map_of_Map_new_absent [OF assms(3)]
    by simp
  then show ?thesis
    by (simp add: roster_server_None zero_timestamp_string offline_state_def)
qed

theorem offline_roster_entry_witness:
  "[example_node ''a'' [], example_node ''b'' []] \<noteq> []
   \<and> (1::nat) < length [example_node ''a'' [], example_node ''b'' []]
   \<and> uuid ([example_node ''a'' [], example_node ''b'' []] ! 1) \<notin>
       set (map fst [(utf16 ''a'', example_status [(''cpu'', JNum 10)])])
   \<and> cpu (state (servers (komariToNezhaWebsocketResponse example_runtime
          [example_node ''a'' [], example_node ''b'' []]
          [(utf16 ''a'', example_status [(''cpu'', JNum 10)])]) ! 1)) = JNum 0
   \<and> last_active (servers (komariToNezhaWebsocketResponse example_runtime
          [example_node ''a'' [], example_node ''b'' []]
          [(utf16 ''a'', example_status [(''cpu'', JNum 10)])]) ! 1) =
        JStr (utf16 ''0000-00-00T00:00:00Z'')"
proof -
  let ?cache = "[example_node ''a'' [], example_node ''b'' []]"
  let ?data = "[(utf16 ''a'', example_status [(''cpu'', JNum 10)])]"
  have h1: "?cache \<noteq> []" by simp
  have h2: "(1::nat) < length ?cache" by simp
  have h3: "uuid (?cache ! 1) \<notin> set (map fst ?data)" by (simp add: utf16_def)
  note w = offline_roster_entry [OF h1 h2 h3, of example_runtime]
  have "cpu (state (servers (komariToNezhaWebsocketResponse example_runtime ?cache ?data) ! 1)) =
        JNum 0"
    using w [THEN conjunct1] by simp
  then show ?thesis
    using h1 h2 h3 w [THEN conjunct2, THEN conjunct1] by blast
qed

subsection \<open>Temperature and GPU lists\<close>

text \<open>
  Claim C8, as amended. On every path (the plan of an empty roster is the live feed
  itself, which is the path without a cache), an entity built from a live-status record
  whose \<open>temp\<close> is missing, \<open>null\<close> or \<open>0\<close> has an empty temperature list, and no
  temperature entry ever holds a zero reading. A numeric \<open>gpu\<close> field is wrapped into a
  one-element list for every entity synthesised from the live feed alone; for an entity
  merged into a roster entry it is wrapped only when the roster entry has a truthy
  \<open>gpu_name\<close>, and the GPU list is empty otherwise.
\<close>

theorem temperature_and_gpu_policy:
  assumes "distinct (map uuid km_servers_cache)"
    and "distinct (map fst data)"
    and "i < length (reconcile_plan km_servers_cache data)"
  shows "case reconcile_plan km_servers_cache data ! i of
           FromFeed key st \<Rightarrow>
             (status_props st ''temp'' \<in> {JUndefined, JNull, JNum 0} \<longrightarrow>
                temperatures (state (servers
                  (komariToNezhaWebsocketResponse rt km_servers_cache data) ! i)) = [])
           \<and> (\<forall>t \<in> set (temperatures (state (servers
                  (komariToNezhaWebsocketResponse rt km_servers_cache data) ! i))).
                Temperature t \<noteq> JNum 0)
           \<and> (\<forall>g. status_props st ''gpu'' = JNum g \<longrightarrow>
                gpu (state (servers
                  (komariToNezhaWebsocketResponse rt km_servers_cache data) ! i)) = [JNum g])
         | FromRoster server None \<Rightarrow>
             temperatures (state (servers
               (komariToNezhaWebsocketResponse rt km_servers_cache data) ! i)) = []
           \<and> gpu (state (servers
               (komariToNezhaWebsocketResponse rt km_servers_cache data) ! i)) = []
         | FromRoster server (Some st) \<Rightarrow>
             (status_props st ''temp'' \<in> {JUndefined, JNull, JNum 0} \<longrightarrow>
                temperatures (state (servers
                  (komariToNezhaWebsocketResponse rt km_servers_cache data) ! i)) = [])
           \<and> (\<forall>t \<in> set (temperatures (state (servers
                  (komariToNezhaWebsocketResponse rt km_servers_cache data) ! i))).
                Temperature t \<noteq> JNum 0)
           \<and> (\<forall>g. status_props st ''gpu'' = JNum g \<longrightarrow>
                gpu (state (servers
                  (komariToNezhaWebsocketResponse rt km_servers_cache data) ! i)) =
                (if truthy (props server ''gpu_name'') then [JNum g] else []))"
proof -
  let ?src = "reconcile_plan km_servers_cache data ! i"
  have out: "servers (komariToNezhaWebsocketResponse rt km_servers_cache data) ! i =
             build_entity rt ?src"
    using komari_servers_plan [OF assms(1,2), of rt] assms(3) by simp
  show ?thesis
  proof (cases ?src)
    case (FromFeed key st)
    then show ?thesis
      using temperatures_of_cold [of "status_props st ''temp''" rt]
      by (auto simp: out status_server_def status_state_policy dest: temperatures_of_nonzero)
  next
    case (FromRoster server status)
    then show ?thesis
      using temperatures_of_cold [of "status_props (the status) ''temp''" rt]
      by (cases status)
         (auto simp: out roster_server_def Let_def offline_state_def status_state_policy
           dest: temperatures_of_nonzero)
  qed
qed

theorem temperature_and_gpu_policy_witness:
  "distinct (map uuid [example_node ''a'' [(''gpu_name'', JStr (utf16 ''RTX''))]])
   \<and> distinct (map fst [(utf16 ''a'', example_status [(''gpu'', JNum 50), (''temp'', JNum 0)])])
   \<and> (0::nat) < length (reconcile_plan [example_node ''a'' [(''gpu_name'', JStr (utf16 ''RTX''))]]
         [(utf16 ''a'', example_status [(''gpu'', JNum 50), (''temp'', JNum 0)])])
   \<and> temperatures (state (servers (komariToNezhaWebsocketResponse example_runtime
         [example_node ''a'' [(''gpu_name'', JStr (utf16 ''RTX''))]]
         [(utf16 ''a'', example_status [(''gpu'', JNum 50), (''temp'', JNum 0)])]) ! 0)) = []
   \<and> gpu (state (servers (komariToNezhaWebsocketResponse example_runtime
         [example_node ''a'' [(''gpu_name'', JStr (utf16 ''RTX''))]]
         [(utf16 ''a'', example_status [(''gpu'', JNum 50), (''temp'', JNum 0)])]) ! 0)) = [JNum 50]"
proof -
  let ?cache = "[example_node ''a'' [(''gpu_name'', JStr (utf16 ''RTX''))]]"
  let ?data = "[(utf16 ''a'', example_status [(''gpu'', JNum 50), (''temp'', JNum 0)])]"
  have plan: "reconcile_plan ?cache ?data =
      [FromRoster (example_node ''a'' [(''gpu_name'', JStr (utf16 ''RTX''))])
         (Some (example_status [(''gpu'', JNum 50), (''temp'', JNum 0)]))]"
    by (simp add: reconcile_plan_def utf16_def)
  have h1: "distinct (map uuid ?cache)" by simp
  have h2: "distinct (map fst ?data)" by simp
  have h3: "(0::nat) < length (reconcile_plan ?cache ?data)" by (simp add: plan)
  show ?thesis
    using h1 h2 h3 temperature_and_gpu_policy [OF h1 h2 h3, of example_runtime]
    unfolding plan by (simp add: utf16_def)
qed

text \<open>
  Claim C8 as stated fails on the cached-roster path: a roster entry without
  \<open>gpu_name\<close> whose live-status record has the numeric \<open>gpu = 50\<close> gets an empty GPU list.
\<close>

theorem gpu_wrapped_counterexample:
  "status_props (example_status [(''gpu'', JNum 50)]) ''gpu'' = JNum 50
   \<and> map (\<lambda>e. gpu (state e)) (servers (komariToNezhaWebsocketResponse example_runtime
        [example_node ''a'' []] [(utf16 ''a'', example_status [(''gpu'', JNum 50)])]))
     = [[]]"
  by (simp add: komari_eval Map_new_def Map_set_def Map_get_def Map_has_def Map_delete_def
      Let_def roster_server_def status_state_def utf16_def)

section \<open>Properties of the RPC2 client\<close>

subsection \<open>Auxiliary facts\<close>

lemma connect_not_connected:
  "connectionState s \<noteq> CONNECTED \<Longrightarrow> connectionState (snd (connect constructed s)) \<noteq> CONNECTED"
  by (simp add: connect_def setConnectionState_def notify_def setTimeout_def Let_def)

lemma autoConnect_method_not_connected:
  "connectionState s \<noteq> CONNECTED \<Longrightarrow>
   connectionState (autoConnect_method constructed s) \<noteq> CONNECTED"
  by (simp add: autoConnect_method_def connect_not_connected)

lemmas client_defs =
  run_def new_RPC2Client_def default_options_def autoConnect_method_def connect_def
  setConnectionState_def setTimeout_def clearTimeout_def notify_def settle_def socket_state_def
  set_socket_state_def socket_close_def handleOpen_def handleError_def cleanup_def
  connect_catch_def connect_timeout_def ws_onopen_def ws_onclose_def ws_onerror_def
  ws_onmessage_def startHeartbeat_def stopHeartbeat_def heartbeat_tick_def attemptReconnect_def
  generateRequestId_def sendMessage_def callViaWebSocket_def http_request_def callViaHTTP_def
  handleMessage_def request_timeout_def run_timer_def disconnect_def clearPendingRequests_def
  call_begin_def batchCall_def Map_set_def Map_get_def Map_delete_def Map_has_def Let_def
  plain_call_def id_limit_def double_succ_def

lemma connected_client_fields:
  "connectionState connected_client = CONNECTED"
  "ws connected_client = Some 0"
  "sockets connected_client = [WS_OPEN]"
  "requestId connected_client = 0"
  "pendingRequests connected_client = []"
  "reconnectAttempts connected_client = 0"
  "next_timer connected_client = 3"
  "next_promise connected_client = 0"
  "heartbeatInterval connected_client = Some 2"
  "settled connected_client = []"
  "options connected_client = default_options"
  "sent connected_client = []"
  "posted connected_client = []"
  by (simp_all add: connected_client_def client_defs)

lemma clearPending_settled:
  "settled (clearPending error xs s) =
   settled s @ map (\<lambda>e. (promise (snd e), Inl error)) xs"
  by (induction xs arbitrary: s)
     (auto simp: Let_def settle_def clearTimeout_def split: option.splits)

lemma clearPending_timers:
  "timers (clearPending error xs s) t =
   (if \<exists>e \<in> set xs. timeout (snd e) = Some t then None else timers s t)"
  by (induction xs arbitrary: s)
     (auto simp: Let_def settle_def clearTimeout_def split: option.splits)

lemma clearPending_other:
  "pendingRequests (clearPending error xs s) = pendingRequests s"
  "connectionState (clearPending error xs s) = connectionState s"
  "requestId (clearPending error xs s) = requestId s"
  "next_promise (clearPending error xs s) = next_promise s"
  "next_timer (clearPending error xs s) = next_timer s"
  "sent (clearPending error xs s) = sent s"
  "ws (clearPending error xs s) = ws s"
  "options (clearPending error xs s) = options s"
  "reconnectTimeout (clearPending error xs s) = reconnectTimeout s"
  "heartbeatInterval (clearPending error xs s) = heartbeatInterval s"
  "reconnectAttempts (clearPending error xs s) = reconnectAttempts s"
  by (induction xs arbitrary: s;
      simp add: Let_def settle_def clearTimeout_def split: option.splits)+

lemma disconnect_split:
  "disconnect s = clearPendingRequests ConnectionClosed (disconnect_prefix s)"
  by (simp add: disconnect_def disconnect_prefix_def Let_def)

lemma disconnect_prefix_fields:
  "pendingRequests (disconnect_prefix s) = pendingRequests s"
  "settled (disconnect_prefix s) = settled s"
  "next_promise (disconnect_prefix s) = next_promise s"
  "requestId (disconnect_prefix s) = requestId s"
  "sent (disconnect_prefix s) = sent s"
  "reconnectTimeout (disconnect_prefix s) = None"
  "heartbeatInterval (disconnect_prefix s) = None"
  "connectionState (disconnect_prefix s) = DISCONNECTED"
  "ws (disconnect_prefix s) = None"
  "autoReconnect (options (disconnect_prefix s)) = False"
  by (simp_all add: disconnect_prefix_def Let_def clearTimeout_def socket_close_def
      set_socket_state_def setConnectionState_def split: option.splits)

lemma disconnect_prefix_timers:
  "timers (disconnect_prefix s) t =
   (if reconnectTimeout s = Some t \<or> heartbeatInterval s = Some t then None else timers s t)"
  by (auto simp: disconnect_prefix_def Let_def clearTimeout_def socket_close_def
      set_socket_state_def setConnectionState_def split: option.splits)

lemma double_succ_facts:
  "x \<le> double_succ x"
  "x < id_limit \<Longrightarrow> double_succ x = x + 1"
  "double_succ id_limit = id_limit"
  "x \<le> id_limit \<Longrightarrow> double_succ x \<le> id_limit"
  "1 \<le> id_limit"
proof -
  show "x \<le> double_succ x" by (simp add: double_succ_def)
  show "x < id_limit \<Longrightarrow> double_succ x = x + 1" by (simp add: double_succ_def)
  show l: "double_succ id_limit = id_limit" by (simp add: double_succ_def id_limit_def)
  show "double_succ x \<le> id_limit" if "x \<le> id_limit"
  proof (cases "x < id_limit")
    case True
    then show ?thesis by (simp add: double_succ_def)
  next
    case False
    then have "x = id_limit" using that by simp
    then show ?thesis by (simp add: l)
  qed
  show "1 \<le> id_limit" by (simp add: id_limit_def)
qed

lemma frame_refl: "frame s s"
  by (simp add: frame_def)

lemma frame_trans: "frame s s' \<Longrightarrow> frame s' s'' \<Longrightarrow> frame s s''"
  by (auto simp: frame_def)

lemma entries_okD:
  "entries_ok s \<Longrightarrow> (k, pe) \<in> set (pendingRequests s) \<Longrightarrow>
   promise pe < next_promise s \<and> promise pe \<notin> fst ` set (settled s)"
  unfolding entries_ok_def by blast

lemma promises_okD:
  "promises_ok s \<Longrightarrow> (k, pe) \<in> set (pendingRequests s) \<Longrightarrow>
   (k', pe') \<in> set (pendingRequests s) \<Longrightarrow> promise pe = promise pe' \<Longrightarrow> k = k'"
  unfolding promises_ok_def by blast

lemma timeouts_okD:
  "timeouts_ok s \<Longrightarrow> timers s t = Some (d, RequestTimeout k p m) \<Longrightarrow>
   p < next_promise s \<and> p \<notin> fst ` set (settled s)"
  unfolding timeouts_ok_def by blast

lemma timeouts_ok_same:
  "timeouts_ok s \<Longrightarrow> timers s t = Some (d, RequestTimeout k p m) \<Longrightarrow>
   timers s t' = Some (d', RequestTimeout k' p m') \<Longrightarrow> t = t'"
  unfolding timeouts_ok_def by blast

lemma linked_okD:
  "linked_ok s \<Longrightarrow> (k, pe) \<in> set (pendingRequests s) \<Longrightarrow>
   timers s t = Some (d, RequestTimeout k' (promise pe) m) \<Longrightarrow> timeout pe = Some t \<and> k' = k"
  unfolding linked_ok_def by blast

lemma inv_parts:
  "client_inv s \<Longrightarrow> distinct (map fst (pendingRequests s))"
  "client_inv s \<Longrightarrow> entries_ok s"
  "client_inv s \<Longrightarrow> promises_ok s"
  "client_inv s \<Longrightarrow> timeouts_ok s"
  "client_inv s \<Longrightarrow> settled_ok s"
  "client_inv s \<Longrightarrow> linked_ok s"
  by (simp_all add: client_inv_def)

lemma frame_inv:
  assumes "frame s s'" "client_inv s"
  shows "client_inv s'"
proof -
  have eqs: "pendingRequests s' = pendingRequests s" "settled s' = settled s"
    "next_promise s' = next_promise s"
    using assms(1) by (simp_all add: frame_def)
  have tm: "\<And>t d k p m. timers s' t = Some (d, RequestTimeout k p m) \<Longrightarrow>
      timers s t = Some (d, RequestTimeout k p m)"
    using assms(1) by (simp add: frame_def)
  note p = inv_parts [OF assms(2)]
  have c1: "distinct (map fst (pendingRequests s'))"
    using p(1) by (simp add: eqs)
  have c2: "entries_ok s'"
    using p(2) by (simp add: entries_ok_def eqs)
  have c3: "promises_ok s'"
    using p(3) by (simp add: promises_ok_def eqs)
  have c4: "timeouts_ok s'"
    unfolding timeouts_ok_def eqs
  proof (rule conjI; intro allI impI)
    fix t d k q m assume "timers s' t = Some (d, RequestTimeout k q m)"
    from timeouts_okD [OF p(4) tm [OF this]]
    show "q < next_promise s \<and> q \<notin> fst ` set (settled s)" .
  next
    fix t t' d d' k k' q m m'
    assume "timers s' t = Some (d, RequestTimeout k q m)
          \<and> timers s' t' = Some (d', RequestTimeout k' q m')"
    then have "timers s t = Some (d, RequestTimeout k q m)"
      "timers s t' = Some (d', RequestTimeout k' q m')"
      using tm by simp_all
    then show "t = t'" by (rule timeouts_ok_same [OF p(4)])
  qed
  have c5: "settled_ok s'"
    using p(5) by (simp add: settled_ok_def eqs)
  have c6: "linked_ok s'"
    unfolding linked_ok_def eqs
  proof (intro allI impI)
    fix k pe t d k' m
    assume a: "(k, pe) \<in> set (pendingRequests s)
             \<and> timers s' t = Some (d, RequestTimeout k' (promise pe) m)"
    then have "timers s t = Some (d, RequestTimeout k' (promise pe) m)" using tm by simp
    with a show "timeout pe = Some t \<and> k' = k" using linked_okD [OF p(6)] by blast
  qed
  show ?thesis
    using c1 c2 c3 c4 c5 c6 by (simp add: client_inv_def)
qed

lemma sent_ids_append:
  "sent_ids (s\<lparr>sent := sent s @ [r]\<rparr>) =
   sent_ids s @ (case request_id r of IdNum n \<Rightarrow> [n] | _ \<Rightarrow> [])"
  by (simp add: sent_ids_def List.map_filter_def split: rpc_id.splits)

lemma frame_connect: "frame s (snd (connect constructed s))"
  by (simp add: frame_def connect_def setConnectionState_def notify_def setTimeout_def Let_def
      sent_ids_def)

lemma frame_autoConnect_method: "frame s (autoConnect_method constructed s)"
  by (simp add: autoConnect_method_def frame_connect frame_refl)

lemma frame_clearTimeout: "frame s (clearTimeout t s)"
  by (simp add: frame_def clearTimeout_def sent_ids_def)

lemma frame_stopHeartbeat: "frame s (stopHeartbeat s)"
  by (simp add: frame_def stopHeartbeat_def clearTimeout_def sent_ids_def split: option.splits)

lemma frame_startHeartbeat: "frame s (startHeartbeat s)"
  by (simp add: frame_def startHeartbeat_def stopHeartbeat_def clearTimeout_def setTimeout_def
      Let_def sent_ids_def split: option.splits)

lemma frame_ws_onopen: "frame s (ws_onopen s)"
  by (simp add: frame_def ws_onopen_def startHeartbeat_def stopHeartbeat_def clearTimeout_def
      setTimeout_def setConnectionState_def notify_def Let_def sent_ids_def split: option.splits)

lemma frame_attemptReconnect: "frame s (attemptReconnect s)"
  by (simp add: frame_def attemptReconnect_def setTimeout_def setConnectionState_def notify_def
      Let_def sent_ids_def)

lemma frame_ws_onclose: "frame s (ws_onclose s)"
  by (simp add: frame_def ws_onclose_def attemptReconnect_def stopHeartbeat_def clearTimeout_def
      setTimeout_def setConnectionState_def notify_def Let_def sent_ids_def split: option.splits)

lemma frame_ws_onerror: "frame s (ws_onerror s)"
  by (simp add: frame_def ws_onerror_def notify_def sent_ids_def)

lemma frame_set_socket_state: "frame s (set_socket_state k r s)"
  by (simp add: frame_def set_socket_state_def sent_ids_def)

lemma frame_handleOpen: "frame s (handleOpen k s)"
  by (simp add: frame_def handleOpen_def cleanup_def clearTimeout_def sent_ids_def
      split: option.splits)

lemma frame_handleError: "frame s (handleError k s)"
  by (simp add: frame_def handleError_def cleanup_def clearTimeout_def connect_catch_def
      notify_def setConnectionState_def sent_ids_def split: option.splits)

lemma frame_connect_timeout: "frame s (connect_timeout k s)"
  by (simp add: frame_def connect_timeout_def cleanup_def clearTimeout_def connect_catch_def
      notify_def setConnectionState_def sent_ids_def split: option.splits)

lemma frame_heartbeat_tick: "frame s (heartbeat_tick date_now s)"
  by (simp add: frame_def heartbeat_tick_def sent_ids_append split: option.splits)

lemma frame_generateRequestId: "frame s (snd (generateRequestId s))"
  by (simp add: frame_def generateRequestId_def Let_def sent_ids_def double_succ_facts)

lemma frame_http_request: "frame s (http_request m ps opts s)"
proof -
  have "frame (snd (generateRequestId s)) (http_request m ps opts s)" if "\<not> notification opts"
    using that by (simp add: frame_def http_request_def Let_def sent_ids_def)
  moreover have "frame s (http_request m ps opts s)" if "notification opts"
    using that by (simp add: frame_def http_request_def Let_def sent_ids_def)
  ultimately show ?thesis
    using frame_generateRequestId frame_trans by blast
qed

lemma frame_batch_requests: "frame s (snd (batch_requests reqs s))"
proof (induction reqs arbitrary: s)
  case Nil
  show ?case by (simp add: frame_refl)
next
  case (Cons req rest)
  have "frame s (snd (if snd (snd req) then (IdAbsent, s)
               else (IdNum (int (fst (generateRequestId s))), snd (generateRequestId s))))"
    by (simp add: frame_generateRequestId frame_refl)
  then show ?case
    using Cons.IH by (auto simp: Let_def intro: frame_trans)
qed

lemma frame_batchCall: "frame s (batchCall reqs s)"
proof -
  have "frame (snd (batch_requests reqs s)) (batchCall reqs s)"
    by (simp add: frame_def batchCall_def Let_def sent_ids_def)
  then show ?thesis using frame_batch_requests frame_trans by blast
qed

lemma Map_set_mem:
  assumes "(k, v) \<in> set (Map_set m K V)"
  shows "(k = K \<and> v = V) \<or> ((k, v) \<in> set m \<and> k \<noteq> K)"
proof (cases "K \<in> set (map fst m)")
  case True
  then have "(k, v) \<in> (\<lambda>e. if fst e = K then (K, V) else e) ` set m"
    using assms by (simp add: Map_set_def)
  then obtain e where "e \<in> set m" "(k, v) = (if fst e = K then (K, V) else e)" by blast
  then show ?thesis by (cases "fst e = K") auto
next
  case False
  then have "(k, v) \<in> set m \<or> (k = K \<and> v = V)" using assms by (auto simp: Map_set_def)
  moreover have "k \<noteq> K" if "(k, v) \<in> set m"
    using that False by force
  ultimately show ?thesis by blast
qed

lemma distinct_Map_set: "distinct (map fst m) \<Longrightarrow> distinct (map fst (Map_set m K V))"
  by (simp add: map_fst_Map_set)

lemma inv_register:
  assumes inv: "client_inv s"
    and pend: "pendingRequests s' =
      Map_set (pendingRequests s) K \<lparr>promise = next_promise s, timeout = Some t\<rparr>"
    and np: "next_promise s' = next_promise s + 1"
    and st: "settled s' = settled s"
    and tm: "timers s' = (timers s)(t \<mapsto> (d, RequestTimeout K (next_promise s) m))"
  shows "client_inv s'"
proof -
  let ?pe = "\<lparr>promise = next_promise s, timeout = Some t\<rparr>"
  note p = inv_parts [OF inv]
  have mem: "(k = K \<and> pe = ?pe) \<or> ((k, pe) \<in> set (pendingRequests s) \<and> k \<noteq> K)"
    if "(k, pe) \<in> set (pendingRequests s')" for k pe
    using that unfolding pend by (rule Map_set_mem)
  have old: "promise pe < next_promise s \<and> promise pe \<notin> fst ` set (settled s)"
    if "(k, pe) \<in> set (pendingRequests s)" for k pe
    using entries_okD [OF p(2) that] .
  have told: "q < next_promise s \<and> q \<notin> fst ` set (settled s)"
    if "timers s t' = Some (d', RequestTimeout k q m')" for t' d' k q m'
    using timeouts_okD [OF p(4) that] .
  have tcase: "(t' = t \<and> k = K \<and> q = next_promise s)
      \<or> (t' \<noteq> t \<and> timers s t' = Some (d', RequestTimeout k q m'))"
    if "timers s' t' = Some (d', RequestTimeout k q m')" for t' d' k q m'
    using that by (auto simp: tm split: if_splits)
  have unsettled: "next_promise s \<notin> fst ` set (settled s)"
    using p(5) unfolding settled_ok_def by blast
  have c1: "distinct (map fst (pendingRequests s'))"
    unfolding pend using p(1) by (rule distinct_Map_set)
  have c2: "entries_ok s'"
    unfolding entries_ok_def
  proof (intro allI impI)
    fix k pe assume "(k, pe) \<in> set (pendingRequests s')"
    from mem [OF this]
    show "promise pe < next_promise s' \<and> promise pe \<notin> fst ` set (settled s')"
    proof
      assume "k = K \<and> pe = ?pe"
      then show ?thesis using unsettled by (simp add: np st)
    next
      assume "(k, pe) \<in> set (pendingRequests s) \<and> k \<noteq> K"
      then show ?thesis using old [of k pe] by (simp add: np st)
    qed
  qed
  have c3: "promises_ok s'"
    unfolding promises_ok_def
  proof (intro allI impI)
    fix k k' pe pe'
    assume a: "(k, pe) \<in> set (pendingRequests s') \<and> (k', pe') \<in> set (pendingRequests s')
         \<and> promise pe = promise pe'"
    then have eq: "promise pe = promise pe'" by simp
    from a mem [of k pe] mem [of k' pe'] consider
        "k = K" "k' = K"
      | "pe = ?pe" "(k', pe') \<in> set (pendingRequests s)"
      | "(k, pe) \<in> set (pendingRequests s)" "pe' = ?pe"
      | "(k, pe) \<in> set (pendingRequests s)" "(k', pe') \<in> set (pendingRequests s)"
      by blast
    then show "k = k'"
    proof cases
      case 1
      then show ?thesis by simp
    next
      case 2
      then show ?thesis using old [OF 2(2)] eq by simp
    next
      case 3
      then show ?thesis using old [OF 3(1)] eq by simp
    next
      case 4
      show ?thesis using promises_okD [OF p(3) 4(1) 4(2) eq] .
    qed
  qed
  have c4: "timeouts_ok s'"
    unfolding timeouts_ok_def
  proof (rule conjI; intro allI impI)
    fix t' d' k q m' assume "timers s' t' = Some (d', RequestTimeout k q m')"
    from tcase [OF this]
    show "q < next_promise s' \<and> q \<notin> fst ` set (settled s')"
    proof
      assume "t' = t \<and> k = K \<and> q = next_promise s"
      then show ?thesis using unsettled by (simp add: np st)
    next
      assume "t' \<noteq> t \<and> timers s t' = Some (d', RequestTimeout k q m')"
      then show ?thesis using told [of t' d' k q m'] by (simp add: np st)
    qed
  next
    fix t1 t2 d1 d2 k1 k2 q m1 m2
    assume a: "timers s' t1 = Some (d1, RequestTimeout k1 q m1)
             \<and> timers s' t2 = Some (d2, RequestTimeout k2 q m2)"
    from a tcase [of t1 d1 k1 q m1] tcase [of t2 d2 k2 q m2] consider
        "t1 = t" "t2 = t"
      | "q = next_promise s" "timers s t2 = Some (d2, RequestTimeout k2 q m2)"
      | "timers s t1 = Some (d1, RequestTimeout k1 q m1)" "q = next_promise s"
      | "timers s t1 = Some (d1, RequestTimeout k1 q m1)"
        "timers s t2 = Some (d2, RequestTimeout k2 q m2)"
      by blast
    then show "t1 = t2"
    proof cases
      case 1
      then show ?thesis by simp
    next
      case 2
      then show ?thesis using told [OF 2(2)] by simp
    next
      case 3
      then show ?thesis using told [OF 3(1)] by simp
    next
      case 4
      then show ?thesis by (rule timeouts_ok_same [OF p(4)])
    qed
  qed
  have c5: "settled_ok s'"
    using p(5) unfolding settled_ok_def by (auto simp: st np)
  have c6: "linked_ok s'"
    unfolding linked_ok_def
  proof (intro allI impI)
    fix k pe t' d' k' m'
    assume a: "(k, pe) \<in> set (pendingRequests s')
             \<and> timers s' t' = Some (d', RequestTimeout k' (promise pe) m')"
    from a mem [of k pe] tcase [of t' d' k' "promise pe" m'] consider
        "k = K" "pe = ?pe" "t' = t" "k' = K"
      | "pe = ?pe" "timers s t' = Some (d', RequestTimeout k' (promise pe) m')"
      | "(k, pe) \<in> set (pendingRequests s)" "promise pe = next_promise s"
      | "(k, pe) \<in> set (pendingRequests s)"
        "timers s t' = Some (d', RequestTimeout k' (promise pe) m')"
      by blast
    then show "timeout pe = Some t' \<and> k' = k"
    proof cases
      case 1
      then show ?thesis by simp
    next
      case 2
      then show ?thesis using told [OF 2(2)] by simp
    next
      case 3
      then show ?thesis using old [OF 3(1)] by simp
    next
      case 4
      then show ?thesis by (rule linked_okD [OF p(6)])
    qed
  qed
  show ?thesis
    using c1 c2 c3 c4 c5 c6 by (simp add: client_inv_def)
qed

lemma Map_delete_mem:
  "(k', v) \<in> set (Map_delete m k) \<longleftrightarrow> (k', v) \<in> set m \<and> k' \<noteq> k"
  by (auto simp: Map_delete_def)

lemma distinct_Map_delete: "distinct (map fst m) \<Longrightarrow> distinct (map fst (Map_delete m k))"
  by (simp add: Map_delete_def distinct_map_filter)

text \<open>
  A promise is settled through its entry: the entry goes, and so does the timeout it holds.
\<close>

lemma inv_settle_entry:
  assumes inv: "client_inv s"
    and entry: "(k, pe) \<in> set (pendingRequests s)"
    and pend: "pendingRequests s' = Map_delete (pendingRequests s) k"
    and st: "settled s' = settled s @ [(promise pe, x)]"
    and tm: "\<And>t d k' q m. timers s' t = Some (d, RequestTimeout k' q m) \<Longrightarrow>
               timers s t = Some (d, RequestTimeout k' q m) \<and> timeout pe \<noteq> Some t"
    and np: "next_promise s' = next_promise s"
  shows "client_inv s'"
proof -
  note p = inv_parts [OF inv]
  have mem: "(k', pe') \<in> set (pendingRequests s') \<longleftrightarrow>
      (k', pe') \<in> set (pendingRequests s) \<and> k' \<noteq> k" for k' pe'
    unfolding pend by (rule Map_delete_mem)
  have e: "promise pe < next_promise s" "promise pe \<notin> fst ` set (settled s)"
    using entries_okD [OF p(2) entry] by simp_all
  have c1: "distinct (map fst (pendingRequests s'))"
    unfolding pend using p(1) by (rule distinct_Map_delete)
  have c2: "entries_ok s'"
    unfolding entries_ok_def
  proof (intro allI impI)
    fix k' pe' assume "(k', pe') \<in> set (pendingRequests s')"
    then have b: "(k', pe') \<in> set (pendingRequests s)" "k' \<noteq> k" by (simp_all add: mem)
    have "promise pe' \<noteq> promise pe"
      using promises_okD [OF p(3) b(1) entry] b(2) by blast
    then show "promise pe' < next_promise s' \<and> promise pe' \<notin> fst ` set (settled s')"
      using entries_okD [OF p(2) b(1)] by (simp add: st np)
  qed
  have c3: "promises_ok s'"
    unfolding promises_ok_def
  proof (intro allI impI)
    fix k1 k2 pe1 pe2
    assume "(k1, pe1) \<in> set (pendingRequests s') \<and> (k2, pe2) \<in> set (pendingRequests s')
         \<and> promise pe1 = promise pe2"
    then have "(k1, pe1) \<in> set (pendingRequests s)" "(k2, pe2) \<in> set (pendingRequests s)"
      "promise pe1 = promise pe2"
      by (simp_all add: mem)
    then show "k1 = k2" by (rule promises_okD [OF p(3)])
  qed
  have c4: "timeouts_ok s'"
    unfolding timeouts_ok_def
  proof (rule conjI; intro allI impI)
    fix t d k' q m assume a: "timers s' t = Some (d, RequestTimeout k' q m)"
    from tm [OF a] have b: "timers s t = Some (d, RequestTimeout k' q m)"
      and c: "timeout pe \<noteq> Some t" by simp_all
    have "q \<noteq> promise pe"
    proof
      assume "q = promise pe"
      then have "timers s t = Some (d, RequestTimeout k' (promise pe) m)" using b by simp
      from linked_okD [OF p(6) entry this] show False using c by simp
    qed
    then show "q < next_promise s' \<and> q \<notin> fst ` set (settled s')"
      using timeouts_okD [OF p(4) b] by (simp add: st np)
  next
    fix t1 t2 d1 d2 k1 k2 q m1 m2
    assume "timers s' t1 = Some (d1, RequestTimeout k1 q m1)
          \<and> timers s' t2 = Some (d2, RequestTimeout k2 q m2)"
    then have "timers s t1 = Some (d1, RequestTimeout k1 q m1)"
      "timers s t2 = Some (d2, RequestTimeout k2 q m2)"
      using tm by simp_all
    then show "t1 = t2" by (rule timeouts_ok_same [OF p(4)])
  qed
  have c5: "settled_ok s'"
    using p(5) e unfolding settled_ok_def by (auto simp: st np)
  have c6: "linked_ok s'"
    unfolding linked_ok_def
  proof (intro allI impI)
    fix k1 pe1 t d k' m
    assume a: "(k1, pe1) \<in> set (pendingRequests s')
             \<and> timers s' t = Some (d, RequestTimeout k' (promise pe1) m)"
    then have "(k1, pe1) \<in> set (pendingRequests s)"
      "timers s t = Some (d, RequestTimeout k' (promise pe1) m)"
      using tm by (simp_all add: mem)
    then show "timeout pe1 = Some t \<and> k' = k1" by (rule linked_okD [OF p(6)])
  qed
  show ?thesis
    using c1 c2 c3 c4 c5 c6 by (simp add: client_inv_def)
qed

text \<open>
  A promise is settled by its timeout: the timer goes, and so does the entry under the id
  of the timer, which is the entry of the promise if the promise still has one.
\<close>

lemma inv_settle_timer:
  assumes inv: "client_inv s"
    and timer: "timers s t0 = Some (d0, RequestTimeout rid p m0)"
    and pend: "pendingRequests s' = Map_delete (pendingRequests s) rid"
    and st: "settled s' = settled s @ [(p, x)]"
    and tm: "\<And>t d k' q m. timers s' t = Some (d, RequestTimeout k' q m) \<Longrightarrow>
               timers s t = Some (d, RequestTimeout k' q m) \<and> t \<noteq> t0"
    and np: "next_promise s' = next_promise s"
  shows "client_inv s'"
proof -
  note p = inv_parts [OF inv]
  have mem: "(k', pe') \<in> set (pendingRequests s') \<longleftrightarrow>
      (k', pe') \<in> set (pendingRequests s) \<and> k' \<noteq> rid" for k' pe'
    unfolding pend by (rule Map_delete_mem)
  have e: "p < next_promise s" "p \<notin> fst ` set (settled s)"
    using timeouts_okD [OF p(4) timer] by simp_all
  have c1: "distinct (map fst (pendingRequests s'))"
    unfolding pend using p(1) by (rule distinct_Map_delete)
  have c2: "entries_ok s'"
    unfolding entries_ok_def
  proof (intro allI impI)
    fix k' pe' assume "(k', pe') \<in> set (pendingRequests s')"
    then have b: "(k', pe') \<in> set (pendingRequests s)" "k' \<noteq> rid" by (simp_all add: mem)
    have "promise pe' \<noteq> p"
    proof
      assume "promise pe' = p"
      then have "timers s t0 = Some (d0, RequestTimeout rid (promise pe') m0)"
        using timer by simp
      from linked_okD [OF p(6) b(1) this] show False using b(2) by simp
    qed
    then show "promise pe' < next_promise s' \<and> promise pe' \<notin> fst ` set (settled s')"
      using entries_okD [OF p(2) b(1)] by (simp add: st np)
  qed
  have c3: "promises_ok s'"
    unfolding promises_ok_def
  proof (intro allI impI)
    fix k1 k2 pe1 pe2
    assume "(k1, pe1) \<in> set (pendingRequests s') \<and> (k2, pe2) \<in> set (pendingRequests s')
         \<and> promise pe1 = promise pe2"
    then have "(k1, pe1) \<in> set (pendingRequests s)" "(k2, pe2) \<in> set (pendingRequests s)"
      "promise pe1 = promise pe2"
      by (simp_all add: mem)
    then show "k1 = k2" by (rule promises_okD [OF p(3)])
  qed
  have c4: "timeouts_ok s'"
    unfolding timeouts_ok_def
  proof (rule conjI; intro allI impI)
    fix t d k' q m assume a: "timers s' t = Some (d, RequestTimeout k' q m)"
    from tm [OF a] have b: "timers s t = Some (d, RequestTimeout k' q m)"
      and c: "t \<noteq> t0" by simp_all
    have "q \<noteq> p"
    proof
      assume "q = p"
      then have "timers s t = Some (d, RequestTimeout k' p m)" using b by simp
      from timeouts_ok_same [OF p(4) this timer] show False using c by simp
    qed
    then show "q < next_promise s' \<and> q \<notin> fst ` set (settled s')"
      using timeouts_okD [OF p(4) b] by (simp add: st np)
  next
    fix t1 t2 d1 d2 k1 k2 q m1 m2
    assume "timers s' t1 = Some (d1, RequestTimeout k1 q m1)
          \<and> timers s' t2 = Some (d2, RequestTimeout k2 q m2)"
    then have "timers s t1 = Some (d1, RequestTimeout k1 q m1)"
      "timers s t2 = Some (d2, RequestTimeout k2 q m2)"
      using tm by simp_all
    then show "t1 = t2" by (rule timeouts_ok_same [OF p(4)])
  qed
  have c5: "settled_ok s'"
    using p(5) e unfolding settled_ok_def by (auto simp: st np)
  have c6: "linked_ok s'"
    unfolding linked_ok_def
  proof (intro allI impI)
    fix k1 pe1 t d k' m
    assume a: "(k1, pe1) \<in> set (pendingRequests s')
             \<and> timers s' t = Some (d, RequestTimeout k' (promise pe1) m)"
    then have "(k1, pe1) \<in> set (pendingRequests s)"
      "timers s t = Some (d, RequestTimeout k' (promise pe1) m)"
      using tm by (simp_all add: mem)
    then show "timeout pe1 = Some t \<and> k' = k1" by (rule linked_okD [OF p(6)])
  qed
  show ?thesis
    using c1 c2 c3 c4 c5 c6 by (simp add: client_inv_def)
qed

lemma frame_notify: "frame s (notify e s)"
  by (simp add: frame_def notify_def sent_ids_def)

lemma frame_step_inv: "frame s s' \<Longrightarrow> frame s' s'' \<Longrightarrow> client_inv s \<Longrightarrow> client_inv s''"
  using frame_inv frame_trans by blast

text \<open>What a correlated \<open>callViaWebSocket\<close> on a connected client does to the state.\<close>

lemma callViaWebSocket_correlated:
  assumes "connectionState s = CONNECTED" "\<not> notification opts"
  shows "pendingRequests (snd (callViaWebSocket m ps opts s)) =
          Map_set (pendingRequests s) (IdNum (int (fst (generateRequestId s))))
            \<lparr>promise = next_promise s, timeout = Some (next_timer s)\<rparr>"
    and "requestId (snd (callViaWebSocket m ps opts s)) = fst (generateRequestId s)"
    and "next_promise (snd (callViaWebSocket m ps opts s)) = next_promise s + 1"
    and "settled (snd (callViaWebSocket m ps opts s)) = settled s"
    and "timers (snd (callViaWebSocket m ps opts s)) =
          (timers s)(next_timer s \<mapsto>
            (case call_timeout opts of
               None \<Rightarrow> requestTimeout (options s)
             | Some t \<Rightarrow> if t \<noteq> 0 then t else requestTimeout (options s),
             RequestTimeout (IdNum (int (fst (generateRequestId s)))) (next_promise s) m))"
    and "sent_ids (snd (callViaWebSocket m ps opts s)) = sent_ids s
        \<or> sent_ids (snd (callViaWebSocket m ps opts s)) =
            sent_ids s @ [int (fst (generateRequestId s))]"
  using assms
  by (simp_all add: callViaWebSocket_def sendMessage_def generateRequestId_def setTimeout_def
      Let_def sent_ids_def List.map_filter_def socket_state_def split: option.splits)

lemma callViaWebSocket_frame:
  assumes "connectionState s \<noteq> CONNECTED \<or> notification opts"
  shows "frame s (snd (callViaWebSocket m ps opts s))"
  using assms
  by (auto simp: callViaWebSocket_def sendMessage_def frame_def sent_ids_append
      split: option.splits)

lemma callViaWebSocket_inv:
  assumes "client_inv s"
  shows "client_inv (snd (callViaWebSocket m ps opts s))"
proof (cases "connectionState s \<noteq> CONNECTED \<or> notification opts")
  case True
  then show ?thesis using assms frame_inv callViaWebSocket_frame by blast
next
  case False
  then have c: "connectionState s = CONNECTED" "\<not> notification opts" by simp_all
  show ?thesis
    using callViaWebSocket_correlated(1,3,4,5) [OF c]
    by (rule inv_register [OF assms])
qed

lemma handleMessage_inv:
  assumes "client_inv s"
  shows "client_inv (handleMessage data s)"
proof (cases "id_truthy (response_id data)")
  case False
  then show ?thesis using assms by (simp add: handleMessage_def)
next
  case True
  show ?thesis
  proof (cases "map_of (pendingRequests s) (response_id data)")
    case None
    then show ?thesis using assms True by (simp add: handleMessage_def Map_get_def)
  next
    case (Some pe)
    then have entry: "(response_id data, pe) \<in> set (pendingRequests s)"
      by (rule map_of_SomeD)
    let ?x = "case payload data of
                ErrorObject code message \<Rightarrow> Inl (RPCError code message)
              | Result result \<Rightarrow> Inr result"
    show ?thesis
    proof (rule inv_settle_entry [OF assms entry, where x = ?x])
      show "pendingRequests (handleMessage data s) =
            Map_delete (pendingRequests s) (response_id data)"
        using True Some
        by (simp add: handleMessage_def Map_get_def Let_def settle_def clearTimeout_def
            split: option.splits rpc_payload.splits)
      show "settled (handleMessage data s) = settled s @ [(promise pe, ?x)]"
        using True Some
        by (simp add: handleMessage_def Map_get_def Let_def settle_def clearTimeout_def
            split: option.splits rpc_payload.splits)
      show "next_promise (handleMessage data s) = next_promise s"
        using True Some
        by (simp add: handleMessage_def Map_get_def Let_def settle_def clearTimeout_def
            split: option.splits rpc_payload.splits)
      show "timers s t = Some (d, RequestTimeout k' q m) \<and> timeout pe \<noteq> Some t"
        if "timers (handleMessage data s) t = Some (d, RequestTimeout k' q m)" for t d k' q m
        using that True Some
        by (auto simp: handleMessage_def Map_get_def Let_def settle_def clearTimeout_def
            split: option.splits rpc_payload.splits if_splits)
    qed
  qed
qed

lemma request_timeout_inv:
  assumes "client_inv s" "timers s t = Some (d, RequestTimeout rid p m)"
  shows "client_inv (request_timeout rid p m (clearTimeout t s))"
proof (rule inv_settle_timer [OF assms, where x = "Inl (RequestTimedOut m)"])
  show "timers s t' = Some (d', RequestTimeout k' q m') \<and> t' \<noteq> t"
    if "timers (request_timeout rid p m (clearTimeout t s)) t' =
        Some (d', RequestTimeout k' q m')" for t' d' k' q m'
    using that
    by (auto simp: request_timeout_def settle_def clearTimeout_def split: if_splits)
qed (simp_all add: request_timeout_def settle_def clearTimeout_def)

lemma distinct_promises:
  assumes "distinct (map fst xs)"
    and "\<And>k k' pe pe'. (k, pe) \<in> set xs \<Longrightarrow> (k', pe') \<in> set xs \<Longrightarrow>
           promise pe = promise pe' \<Longrightarrow> k = k'"
  shows "distinct (map (\<lambda>e. promise (snd e)) xs)"
proof -
  have "distinct xs" using assms(1) by (simp add: distinct_map)
  moreover have "inj_on (\<lambda>e. promise (snd e)) (set xs)"
  proof (rule inj_onI)
    fix e e' assume a: "e \<in> set xs" "e' \<in> set xs" "promise (snd e) = promise (snd e')"
    obtain k pe k' pe' where e: "e = (k, pe)" "e' = (k', pe')" by (cases e, cases e')
    have "k = k'"
      using assms(2) [of k pe k' pe'] a e by simp
    then have "pe = pe'" using assms(1) a e by (metis eq_key_imp_eq_value)
    then show "e = e'" using e \<open>k = k'\<close> by simp
  qed
  ultimately show ?thesis by (simp add: distinct_map)
qed

lemma clearPendingRequests_inv:
  assumes "client_inv s"
  shows "client_inv (clearPendingRequests error s)"
proof -
  let ?s' = "clearPendingRequests error s"
  note p = inv_parts [OF assms]
  have pend: "pendingRequests ?s' = []" by (simp add: clearPendingRequests_def)
  have st: "settled ?s' =
      settled s @ map (\<lambda>e. (promise (snd e), Inl error)) (pendingRequests s)"
    by (simp add: clearPendingRequests_def clearPending_settled)
  have tm: "timers ?s' t =
      (if \<exists>e \<in> set (pendingRequests s). timeout (snd e) = Some t then None else timers s t)"
    for t
    by (simp add: clearPendingRequests_def clearPending_timers)
  have same: "next_promise ?s' = next_promise s"
    by (simp add: clearPendingRequests_def clearPending_other)
  have stset: "fst ` set (settled ?s') =
      fst ` set (settled s) \<union> (\<lambda>e. promise (snd e)) ` set (pendingRequests s)"
    by (simp add: st image_Un image_image)
  have c4: "timeouts_ok ?s'"
    unfolding timeouts_ok_def
  proof (rule conjI; intro allI impI)
    fix t d k q m assume a: "timers ?s' t = Some (d, RequestTimeout k q m)"
    then have b: "timers s t = Some (d, RequestTimeout k q m)"
      and c: "\<not> (\<exists>e \<in> set (pendingRequests s). timeout (snd e) = Some t)"
      by (simp_all add: tm split: if_splits)
    have "q \<noteq> promise (snd e)" if "e \<in> set (pendingRequests s)" for e
    proof
      assume "q = promise (snd e)"
      then have "timers s t = Some (d, RequestTimeout k (promise (snd e)) m)" using b by simp
      moreover have "(fst e, snd e) \<in> set (pendingRequests s)" using that by simp
      ultimately have "timeout (snd e) = Some t" using linked_okD [OF p(6)] by blast
      then show False using c that by blast
    qed
    then have "q \<notin> (\<lambda>e. promise (snd e)) ` set (pendingRequests s)" by blast
    then show "q < next_promise ?s' \<and> q \<notin> fst ` set (settled ?s')"
      using timeouts_okD [OF p(4) b] by (simp add: stset same)
  next
    fix t1 t2 d1 d2 k1 k2 q m1 m2
    assume "timers ?s' t1 = Some (d1, RequestTimeout k1 q m1)
          \<and> timers ?s' t2 = Some (d2, RequestTimeout k2 q m2)"
    then have "timers s t1 = Some (d1, RequestTimeout k1 q m1)"
      "timers s t2 = Some (d2, RequestTimeout k2 q m2)"
      by (simp_all add: tm split: if_splits)
    then show "t1 = t2" by (rule timeouts_ok_same [OF p(4)])
  qed
  have dp: "distinct (map (\<lambda>e. promise (snd e)) (pendingRequests s))"
    using p(1) promises_okD [OF p(3)] by (rule distinct_promises)
  have un: "\<And>e. e \<in> set (pendingRequests s) \<Longrightarrow>
      promise (snd e) \<notin> fst ` set (settled s) \<and> promise (snd e) < next_promise s"
    using entries_okD [OF p(2)] by (metis prod.collapse)
  have c5: "settled_ok ?s'"
    unfolding settled_ok_def
  proof
    have "map fst (settled ?s') =
        map fst (settled s) @ map (\<lambda>e. promise (snd e)) (pendingRequests s)"
      by (simp add: st comp_def)
    moreover have "distinct (map fst (settled s))"
      using p(5) by (simp add: settled_ok_def)
    moreover have "(promise (snd e), x) \<notin> set (settled s)"
      if "e \<in> set (pendingRequests s)" for e x
      using un [OF that] by force
    ultimately show "distinct (map fst (settled ?s'))"
      using dp by auto
    show "\<forall>q \<in> fst ` set (settled ?s'). q < next_promise ?s'"
      using p(5) un unfolding settled_ok_def by (auto simp: st same)
  qed
  show ?thesis
    using c4 c5
    by (simp add: client_inv_def pend entries_ok_def promises_ok_def linked_ok_def)
qed

lemma frame_disconnect_prefix: "frame s (disconnect_prefix s)"
  by (simp add: frame_def disconnect_prefix_fields disconnect_prefix_timers sent_ids_def)

lemma disconnect_inv: "client_inv s \<Longrightarrow> client_inv (disconnect s)"
  using frame_inv [OF frame_disconnect_prefix] clearPendingRequests_inv
  by (simp add: disconnect_split)

lemma call_begin_inv:
  assumes "client_inv s"
  shows "client_inv (call_begin constructed m ps opts s)"
proof -
  let ?s1 = "if autoConnect (options s) \<and> connectionState s = DISCONNECTED
             then autoConnect_method constructed s else s"
  have "frame s ?s1" by (simp add: frame_autoConnect_method frame_refl)
  then have inv1: "client_inv ?s1" using assms frame_inv by blast
  have "client_inv (snd (callViaWebSocket m ps opts ?s1))"
    using inv1 by (rule callViaWebSocket_inv)
  moreover have "client_inv (http_request m ps opts ?s1)"
    using frame_inv [OF frame_http_request inv1] .
  ultimately show ?thesis by (simp add: call_begin_def Let_def)
qed

lemma run_timer_inv:
  assumes "client_inv s" "timers s t = Some (d, cb)"
  shows "client_inv (run_timer t cb constructed date_now s)"
proof (cases cb)
  case (RequestTimeout rid p m)
  then show ?thesis
    using request_timeout_inv [OF assms(1)] assms(2) by (simp add: run_timer_def)
next
  case ReconnectTimer
  then show ?thesis
    using frame_step_inv [OF frame_clearTimeout frame_connect assms(1)]
    by (simp add: run_timer_def)
next
  case HeartbeatTick
  then show ?thesis
    using frame_inv [OF frame_heartbeat_tick assms(1)] by (simp add: run_timer_def)
next
  case (ConnectTimeout k)
  then show ?thesis
    using frame_step_inv [OF frame_clearTimeout frame_connect_timeout assms(1)]
    by (simp add: run_timer_def)
qed

lemma step_inv:
  assumes "client_inv s"
  shows "client_inv (step e s)"
proof (cases e)
  case (Connect constructed)
  then show ?thesis using frame_inv [OF frame_connect assms] by simp
next
  case Disconnect
  then show ?thesis using disconnect_inv [OF assms] by simp
next
  case (CallViaWebSocket m ps opts)
  then show ?thesis using callViaWebSocket_inv [OF assms] by simp
next
  case (CallViaHTTP http m ps opts)
  then show ?thesis
    using frame_inv [OF frame_http_request assms] by (simp add: callViaHTTP_def)
next
  case (BatchCall requests)
  then show ?thesis using frame_inv [OF frame_batchCall assms] by simp
next
  case (Call constructed m ps opts)
  then show ?thesis using call_begin_inv [OF assms] by simp
next
  case (SocketOpen k)
  have "client_inv (handleOpen k (ws_onopen (set_socket_state k WS_OPEN s)))"
    using frame_inv [OF frame_handleOpen]
      frame_step_inv [OF frame_set_socket_state frame_ws_onopen assms] by blast
  then show ?thesis using SocketOpen assms by simp
next
  case (SocketError k)
  have "client_inv (handleError k (ws_onerror s))"
    using frame_step_inv [OF frame_ws_onerror frame_handleError assms] .
  then show ?thesis using SocketError assms by simp
next
  case (SocketClosing k)
  then show ?thesis using frame_inv [OF frame_set_socket_state assms] assms by simp
next
  case (SocketClose k)
  have "client_inv (ws_onclose (set_socket_state k WS_CLOSED s))"
    using frame_step_inv [OF frame_set_socket_state frame_ws_onclose assms] .
  then show ?thesis using SocketClose assms by simp
next
  case (SocketMessage k data)
  have "client_inv (ws_onmessage data s)"
    using frame_inv [OF frame_notify handleMessage_inv [OF assms]]
    by (simp add: ws_onmessage_def)
  then show ?thesis using SocketMessage assms by simp
next
  case (TimerFires t constructed date_now)
  show ?thesis
  proof (cases "timers s t")
    case None
    then show ?thesis using TimerFires assms by simp
  next
    case (Some entry)
    then have "timers s t = Some (fst entry, snd entry)" by simp
    from run_timer_inv [OF assms this] show ?thesis using TimerFires Some by simp
  qed
qed

lemma run_inv: "client_inv s \<Longrightarrow> client_inv (run events s)"
  unfolding run_def by (induction events arbitrary: s) (simp_all add: step_inv)

lemma new_client_inv: "client_inv (new_RPC2Client constructed opts)"
proof -
  let ?s = "\<lparr>ws = None, connectionState = DISCONNECTED, requestId = 0, pendingRequests = [],
             reconnectAttempts = 0, reconnectTimeout = None, heartbeatInterval = None,
             options = opts, sockets = [], connect_waiters = Map.empty, timers = Map.empty,
             next_timer = 1, next_promise = 0, settled = [], sent = [], posted = [],
             notified = []\<rparr>"
  have "client_inv ?s"
    by (simp add: client_inv_def entries_ok_def promises_ok_def timeouts_ok_def settled_ok_def
        linked_ok_def)
  then have "client_inv (autoConnect_method constructed ?s)"
    using frame_inv [OF frame_autoConnect_method] by blast
  then show ?thesis using \<open>client_inv ?s\<close> by (simp add: new_RPC2Client_def Let_def)
qed

lemma reachable_inv: "client_inv (run events (new_RPC2Client constructed opts))"
  using run_inv [OF new_client_inv] .

subsection \<open>The ids\<close>

lemma generateRequestId_bounds:
  "requestId s \<le> fst (generateRequestId s)"
  "requestId s \<le> id_limit \<Longrightarrow> fst (generateRequestId s) \<le> id_limit"
  "requestId s \<le> id_limit \<Longrightarrow> 1 \<le> fst (generateRequestId s)"
  "fst (generateRequestId s) < id_limit \<Longrightarrow> fst (generateRequestId s) = requestId s + 1"
  "requestId s < id_limit \<Longrightarrow> fst (generateRequestId s) = requestId s + 1"
  "requestId (snd (generateRequestId s)) = fst (generateRequestId s)"
proof -
  have g: "fst (generateRequestId s) = double_succ (requestId s)"
    by (simp add: generateRequestId_def Let_def)
  show a: "requestId s \<le> fst (generateRequestId s)"
    by (simp add: g double_succ_facts)
  show "fst (generateRequestId s) \<le> id_limit" if "requestId s \<le> id_limit"
    using that by (simp add: g double_succ_facts)
  show e: "fst (generateRequestId s) = requestId s + 1" if "requestId s < id_limit"
    using that by (simp add: g double_succ_facts)
  show "1 \<le> fst (generateRequestId s)" if "requestId s \<le> id_limit"
  proof (cases "requestId s < id_limit")
    case True
    then show ?thesis by (simp add: e)
  next
    case False
    then have "requestId s = id_limit" using that by simp
    then show ?thesis using double_succ_facts(5) by (simp add: g double_succ_facts(3))
  qed
  show "fst (generateRequestId s) = requestId s + 1" if "fst (generateRequestId s) < id_limit"
  proof -
    have "requestId s < id_limit" using a that by simp
    then show ?thesis by (rule e)
  qed
  show "requestId (snd (generateRequestId s)) = fst (generateRequestId s)"
    by (simp add: generateRequestId_def Let_def)
qed

lemma frame_id_frame: "frame s s' \<Longrightarrow> id_frame s s'"
  by (simp add: frame_def id_frame_def)

lemma id_frame_inv:
  assumes "id_frame s s'" "ids_ok s"
  shows "ids_ok s'"
proof -
  have f: "fst ` set (pendingRequests s') \<subseteq> fst ` set (pendingRequests s)"
    "sent_ids s' = sent_ids s" "requestId s \<le> requestId s'" "requestId s' \<le> id_limit"
    using assms by (simp_all add: id_frame_def ids_ok_def)
  have c2: "\<exists>n. k = IdNum (int n) \<and> 1 \<le> n \<and> n \<le> requestId s'"
    if "k \<in> fst ` set (pendingRequests s')" for k
  proof -
    have "k \<in> fst ` set (pendingRequests s)" using that f(1) by blast
    then obtain n where "k = IdNum (int n)" "1 \<le> n" "n \<le> requestId s"
      using assms(2) unfolding ids_ok_def by blast
    then have "k = IdNum (int n) \<and> 1 \<le> n \<and> n \<le> requestId s'" using f(3) by simp
    then show ?thesis ..
  qed
  have c3: "1 \<le> n \<and> n \<le> int (requestId s')" if "n \<in> set (sent_ids s')" for n
  proof -
    have "1 \<le> n \<and> n \<le> int (requestId s)"
      using that assms(2) unfolding ids_ok_def f(2) by blast
    then show ?thesis using f(3) by simp
  qed
  have c4: "sorted_wrt (<) (sent_ids s')" if "requestId s' < id_limit"
  proof -
    have "requestId s < id_limit" using that f(3) by simp
    then show ?thesis using assms(2) unfolding ids_ok_def f(2) by blast
  qed
  show ?thesis
    unfolding ids_ok_def using f(4) c2 c3 c4 by blast
qed

lemma id_frame_handleMessage: "id_frame s (handleMessage data s)"
  by (auto simp: id_frame_def handleMessage_def Let_def settle_def clearTimeout_def sent_ids_def
      Map_delete_def split: option.splits rpc_payload.splits)

lemma id_frame_request_timeout: "id_frame s (request_timeout rid p m (clearTimeout t s))"
  by (auto simp: id_frame_def request_timeout_def settle_def clearTimeout_def sent_ids_def
      Map_delete_def)

lemma id_frame_disconnect: "id_frame s (disconnect s)"
  by (simp add: id_frame_def disconnect_split clearPendingRequests_def clearPending_other
      disconnect_prefix_fields sent_ids_def)

lemma callViaWebSocket_ids:
  assumes "ids_ok s"
  shows "ids_ok (snd (callViaWebSocket m ps opts s))"
proof (cases "connectionState s \<noteq> CONNECTED \<or> notification opts")
  case True
  then show ?thesis
    using assms id_frame_inv frame_id_frame callViaWebSocket_frame by blast
next
  case False
  then have c: "connectionState s = CONNECTED" "\<not> notification opts" by simp_all
  let ?s' = "snd (callViaWebSocket m ps opts s)"
  let ?n = "fst (generateRequestId s)"
  have le: "requestId s \<le> id_limit" using assms by (simp add: ids_ok_def)
  have rid: "requestId ?s' = ?n" using callViaWebSocket_correlated(2) [OF c] .
  have keys: "fst ` set (pendingRequests ?s') = insert (IdNum (int ?n)) (fst ` set (pendingRequests s))"
    by (simp add: callViaWebSocket_correlated(1) [OF c] keys_Map_set)
  have sn: "sent_ids ?s' = sent_ids s \<or> sent_ids ?s' = sent_ids s @ [int ?n]"
    using callViaWebSocket_correlated(6) [OF c] .
  note g = generateRequestId_bounds [of s]
  have c1: "requestId ?s' \<le> id_limit" using g(2) [OF le] by (simp add: rid)
  have c2: "\<exists>n. k = IdNum (int n) \<and> 1 \<le> n \<and> n \<le> requestId ?s'"
    if "k \<in> fst ` set (pendingRequests ?s')" for k
  proof (cases "k = IdNum (int ?n)")
    case True
    then have "k = IdNum (int ?n) \<and> 1 \<le> ?n \<and> ?n \<le> requestId ?s'"
      using g(3) [OF le] by (simp add: rid)
    then show ?thesis ..
  next
    case False
    then have "k \<in> fst ` set (pendingRequests s)" using that keys by blast
    then obtain n where "k = IdNum (int n)" "1 \<le> n" "n \<le> requestId s"
      using assms unfolding ids_ok_def by blast
    then have "k = IdNum (int n) \<and> 1 \<le> n \<and> n \<le> requestId ?s'" using g(1) by (simp add: rid)
    then show ?thesis ..
  qed
  have old: "1 \<le> n \<and> n \<le> int (requestId s)" if "n \<in> set (sent_ids s)" for n
    using that assms unfolding ids_ok_def by blast
  have c3: "1 \<le> n \<and> n \<le> int (requestId ?s')" if "n \<in> set (sent_ids ?s')" for n
  proof -
    from that sn have "n \<in> set (sent_ids s) \<or> n = int ?n" by auto
    then show ?thesis
    proof
      assume "n \<in> set (sent_ids s)"
      then show ?thesis using old [of n] g(1) by (simp add: rid)
    next
      assume "n = int ?n"
      then show ?thesis using g(3) [OF le] by (simp add: rid)
    qed
  qed
  have c4: "sorted_wrt (<) (sent_ids ?s')" if "requestId ?s' < id_limit"
  proof -
    have n: "?n = requestId s + 1" using that g(4) by (simp add: rid)
    then have "requestId s < id_limit" using that by (simp add: rid)
    then have srt: "sorted_wrt (<) (sent_ids s)" using assms unfolding ids_ok_def by blast
    have lt: "x < int ?n" if "x \<in> set (sent_ids s)" for x
      using old [OF that] n by simp
    from sn show ?thesis
    proof
      assume "sent_ids ?s' = sent_ids s"
      then show ?thesis using srt by simp
    next
      assume "sent_ids ?s' = sent_ids s @ [int ?n]"
      then show ?thesis using srt lt by (simp add: sorted_wrt_append)
    qed
  qed
  show ?thesis
    unfolding ids_ok_def using c1 c2 c3 c4 by blast
qed

lemma frame_ids: "frame s s' \<Longrightarrow> ids_ok s \<Longrightarrow> ids_ok s'"
  using id_frame_inv frame_id_frame by blast

lemma call_begin_ids:
  assumes "ids_ok s"
  shows "ids_ok (call_begin constructed m ps opts s)"
proof -
  let ?s1 = "if autoConnect (options s) \<and> connectionState s = DISCONNECTED
             then autoConnect_method constructed s else s"
  have "frame s ?s1" by (simp add: frame_autoConnect_method frame_refl)
  then have inv1: "ids_ok ?s1" using assms frame_ids by blast
  have "ids_ok (snd (callViaWebSocket m ps opts ?s1))"
    using inv1 by (rule callViaWebSocket_ids)
  moreover have "ids_ok (http_request m ps opts ?s1)"
    using frame_ids [OF frame_http_request inv1] .
  ultimately show ?thesis by (simp add: call_begin_def Let_def)
qed

lemma run_timer_ids:
  assumes "ids_ok s"
  shows "ids_ok (run_timer t cb constructed date_now s)"
proof (cases cb)
  case (RequestTimeout rid p m)
  then show ?thesis
    using id_frame_inv [OF id_frame_request_timeout assms] by (simp add: run_timer_def)
next
  case ReconnectTimer
  then show ?thesis
    using frame_ids [OF frame_trans [OF frame_clearTimeout frame_connect] assms]
    by (simp add: run_timer_def)
next
  case HeartbeatTick
  then show ?thesis
    using frame_ids [OF frame_heartbeat_tick assms] by (simp add: run_timer_def)
next
  case (ConnectTimeout k)
  then show ?thesis
    using frame_ids [OF frame_trans [OF frame_clearTimeout frame_connect_timeout] assms]
    by (simp add: run_timer_def)
qed

lemma step_ids:
  assumes "ids_ok s"
  shows "ids_ok (step e s)"
proof (cases e)
  case (Connect constructed)
  then show ?thesis using frame_ids [OF frame_connect assms] by simp
next
  case Disconnect
  then show ?thesis using id_frame_inv [OF id_frame_disconnect assms] by simp
next
  case (CallViaWebSocket m ps opts)
  then show ?thesis using callViaWebSocket_ids [OF assms] by simp
next
  case (CallViaHTTP http m ps opts)
  then show ?thesis
    using frame_ids [OF frame_http_request assms] by (simp add: callViaHTTP_def)
next
  case (BatchCall requests)
  then show ?thesis using frame_ids [OF frame_batchCall assms] by simp
next
  case (Call constructed m ps opts)
  then show ?thesis using call_begin_ids [OF assms] by simp
next
  case (SocketOpen k)
  have "ids_ok (handleOpen k (ws_onopen (set_socket_state k WS_OPEN s)))"
    using frame_ids [OF frame_handleOpen]
      frame_ids [OF frame_trans [OF frame_set_socket_state frame_ws_onopen] assms] by blast
  then show ?thesis using SocketOpen assms by simp
next
  case (SocketError k)
  have "ids_ok (handleError k (ws_onerror s))"
    using frame_ids [OF frame_trans [OF frame_ws_onerror frame_handleError] assms] .
  then show ?thesis using SocketError assms by simp
next
  case (SocketClosing k)
  then show ?thesis using frame_ids [OF frame_set_socket_state assms] assms by simp
next
  case (SocketClose k)
  have "ids_ok (ws_onclose (set_socket_state k WS_CLOSED s))"
    using frame_ids [OF frame_trans [OF frame_set_socket_state frame_ws_onclose] assms] .
  then show ?thesis using SocketClose assms by simp
next
  case (SocketMessage k data)
  have "ids_ok (ws_onmessage data s)"
    using frame_ids [OF frame_notify id_frame_inv [OF id_frame_handleMessage assms]]
    by (simp add: ws_onmessage_def)
  then show ?thesis using SocketMessage assms by simp
next
  case (TimerFires t constructed date_now)
  show ?thesis
  proof (cases "timers s t")
    case None
    then show ?thesis using TimerFires assms by simp
  next
    case (Some entry)
    from run_timer_ids [OF assms] show ?thesis using TimerFires Some by simp
  qed
qed

lemma run_ids: "ids_ok s \<Longrightarrow> ids_ok (run events s)"
  unfolding run_def by (induction events arbitrary: s) (simp_all add: step_ids)

lemma new_client_ids: "ids_ok (new_RPC2Client constructed opts)"
proof -
  let ?s = "\<lparr>ws = None, connectionState = DISCONNECTED, requestId = 0, pendingRequests = [],
             reconnectAttempts = 0, reconnectTimeout = None, heartbeatInterval = None,
             options = opts, sockets = [], connect_waiters = Map.empty, timers = Map.empty,
             next_timer = 1, next_promise = 0, settled = [], sent = [], posted = [],
             notified = []\<rparr>"
  have "ids_ok ?s"
    by (simp add: ids_ok_def sent_ids_def List.map_filter_def)
  then have "ids_ok (autoConnect_method constructed ?s)"
    using frame_ids [OF frame_autoConnect_method] by blast
  then show ?thesis using \<open>ids_ok ?s\<close> by (simp add: new_RPC2Client_def Let_def)
qed

lemma reachable_ids: "ids_ok (run events (new_RPC2Client constructed opts))"
  using run_ids [OF new_client_ids] .

lemma ids_ok_keys:
  assumes "ids_ok s" "k \<in> set (map fst (pendingRequests s))"
  shows "id_truthy k \<and> (\<exists>n. k = IdNum (int n) \<and> 1 \<le> n \<and> n \<le> requestId s)"
proof -
  have "k \<in> fst ` set (pendingRequests s)" using assms(2) by simp
  then obtain n where n: "k = IdNum (int n)" "1 \<le> n" "n \<le> requestId s"
    using assms(1) unfolding ids_ok_def by blast
  then have "id_truthy k" by simp
  then show ?thesis using n by blast
qed

lemma ids_ok_next_fresh:
  assumes "ids_ok s"
  shows "IdNum (int (requestId s + 1)) \<notin> set (map fst (pendingRequests s))"
proof
  assume "IdNum (int (requestId s + 1)) \<in> set (map fst (pendingRequests s))"
  from ids_ok_keys [OF assms this]
  obtain n where "IdNum (int (requestId s + 1)) = IdNum (int n)" "n \<le> requestId s" by blast
  then show False by simp
qed

lemma ids_ok_sent:
  assumes "ids_ok s"
  shows "\<forall>n \<in> set (sent_ids s). 1 \<le> n"
    and "requestId s < id_limit \<Longrightarrow> sorted_wrt (<) (sent_ids s)"
    and "requestId s \<le> id_limit"
  using assms unfolding ids_ok_def by blast+

lemma Map_get_Map_delete: "Map_get (Map_delete m k) k = None"
  by (simp add: Map_get_def map_of_Map_delete)

lemma handleMessage_unmatched:
  "\<not> id_truthy (response_id data) \<or> Map_get (pendingRequests s) (response_id data) = None \<Longrightarrow>
   handleMessage data s = s"
  by (auto simp: handleMessage_def)

lemma handleMessage_matched:
  assumes "id_truthy (response_id data)"
    and "Map_get (pendingRequests s) (response_id data) = Some pe"
  shows "pendingRequests (handleMessage data s) =
           Map_delete (pendingRequests s) (response_id data)"
    and "settled (handleMessage data s) =
           settled s @ [(promise pe,
             case payload data of
               ErrorObject code message \<Rightarrow> Inl (RPCError code message)
             | Result result \<Rightarrow> Inr result)]"
    and "timeout pe = Some t \<Longrightarrow> timers (handleMessage data s) t = None"
  using assms
  by (simp_all add: handleMessage_def Let_def settle_def clearTimeout_def
      split: option.splits rpc_payload.splits)

lemma handleMessage_idem: "handleMessage data (handleMessage data s) = handleMessage data s"
proof (cases "id_truthy (response_id data)
    \<and> Map_get (pendingRequests s) (response_id data) \<noteq> None")
  case False
  then show ?thesis by (auto simp: handleMessage_unmatched)
next
  case True
  then obtain pe where pe: "Map_get (pendingRequests s) (response_id data) = Some pe" by blast
  have "Map_get (pendingRequests (handleMessage data s)) (response_id data) = None"
    using handleMessage_matched(1) [OF _ pe] True by (simp add: Map_get_Map_delete)
  then show ?thesis by (rule handleMessage_unmatched [OF disjI2])
qed

lemma timer_fires_request:
  assumes "timers s t = Some (d, RequestTimeout rid p m)"
  shows "pendingRequests (step (TimerFires t constructed date_now) s) =
           Map_delete (pendingRequests s) rid"
    and "settled (step (TimerFires t constructed date_now) s) =
           settled s @ [(p, Inl (RequestTimedOut m))]"
    and "timers (step (TimerFires t constructed date_now) s) t = None"
  using assms
  by (simp_all add: run_timer_def request_timeout_def settle_def clearTimeout_def)

lemma pending_response_settles:
  assumes "ids_ok s" "response_id data \<in> set (map fst (pendingRequests s))"
  shows "id_truthy (response_id data)"
    and "pendingRequests (handleMessage data s) =
           Map_delete (pendingRequests s) (response_id data)"
    and "length (settled (handleMessage data s)) = length (settled s) + 1"
proof -
  show t: "id_truthy (response_id data)"
    using ids_ok_keys [OF assms] by simp
  obtain pe where "map_of (pendingRequests s) (response_id data) = Some pe"
    using assms(2) by (metis map_of_eq_None_iff not_None_eq set_map)
  then have g: "Map_get (pendingRequests s) (response_id data) = Some pe"
    by (simp add: Map_get_def)
  show "pendingRequests (handleMessage data s) =
           Map_delete (pendingRequests s) (response_id data)"
    using handleMessage_matched(1) [OF t g] .
  show "length (settled (handleMessage data s)) = length (settled s) + 1"
    using handleMessage_matched(2) [OF t g] by simp
qed

lemma map_of_replace:
  "k \<in> fst ` set xs \<Longrightarrow>
   map_of (map (\<lambda>e. if fst e = k then (k, v) else e) xs) k = Some v"
  by (induction xs) auto

lemma map_of_Map_set: "map_of (Map_set xs k v) k = Some v"
proof (cases "k \<in> fst ` set xs")
  case True
  then show ?thesis by (simp add: Map_set_def map_of_replace)
next
  case False
  then have "map_of xs k = None" by (simp add: map_of_eq_None_iff)
  then show ?thesis using False by (simp add: Map_set_def map_add_def)
qed

lemma callViaWebSocket_registers:
  assumes "connectionState s = CONNECTED" "\<not> notification opts"
  shows "Map_get (pendingRequests (snd (callViaWebSocket m ps opts s)))
           (IdNum (int (fst (generateRequestId s)))) =
         Some \<lparr>promise = next_promise s, timeout = Some (next_timer s)\<rparr>"
  by (simp add: callViaWebSocket_correlated(1) [OF assms] Map_get_def map_of_Map_set)

lemma waiting_client_fields:
  "connectionState waiting_client = CONNECTED"
  "pendingRequests waiting_client = [(IdNum 1, \<lparr>promise = 0, timeout = Some 3\<rparr>)]"
  "timers waiting_client 3 = Some (30000, RequestTimeout (IdNum 1) 0 ''m'')"
  "settled waiting_client = []"
  "requestId waiting_client = 1"
  "reconnectTimeout waiting_client = None"
  "heartbeatInterval waiting_client = Some 2"
  "sent_ids waiting_client = [1]"
  by (simp_all add: waiting_client_def connected_client_def client_defs sent_ids_def
      List.map_filter_def)

lemma closing_client_fields:
  "connectionState closing_client = CONNECTED"
  "\<not> socket_open closing_client"
  "requestId closing_client = 0"
  "next_timer closing_client = 3"
  "next_promise closing_client = 0"
  "sent closing_client = []"
  "posted closing_client = []"
  by (simp_all add: closing_client_def connected_client_def socket_open_def client_defs)

lemma reconnecting_client_fields:
  "connectionState reconnecting_client = RECONNECTING"
  "requestId reconnecting_client = 1"
  "pendingRequests reconnecting_client = [(IdNum 1, \<lparr>promise = 0, timeout = Some 3\<rparr>)]"
  "timers reconnecting_client 3 = Some (30000, RequestTimeout (IdNum 1) 0 ''m'')"
  "sent reconnecting_client = [\<lparr>rpc_method = ''m'', params = JNull, request_id = IdNum 1\<rparr>]"
  "posted reconnecting_client = []"
  "autoConnect (options reconnecting_client)"
  by (simp_all add: reconnecting_client_def waiting_client_def connected_client_def client_defs)

lemma waiting_client_run:
  "waiting_client =
   run [SocketOpen 0, CallViaWebSocket ''m'' JNull plain_call]
     (new_RPC2Client True default_options)"
  by (simp add: waiting_client_def connected_client_def run_def)

lemma autoConnect_method_fields:
  "sent (autoConnect_method constructed s) = sent s"
  "pendingRequests (autoConnect_method constructed s) = pendingRequests s"
  "posted (autoConnect_method constructed s) = posted s"
  by (simp_all add: autoConnect_method_def connect_def setConnectionState_def notify_def
      setTimeout_def Let_def)

lemma autoConnect_method_other:
  "requestId (autoConnect_method constructed s) = requestId s"
  "timers (autoConnect_method constructed s) t = Some (d, RequestTimeout k p m') \<Longrightarrow>
   timers s t = Some (d, RequestTimeout k p m')"
  using frame_autoConnect_method [of s constructed]
  by (auto simp: autoConnect_method_def connect_def setConnectionState_def notify_def
      setTimeout_def Let_def split: if_splits)

lemma http_request_fields:
  "sent (http_request m ps opts s) = sent s"
  "pendingRequests (http_request m ps opts s) = pendingRequests s"
  "timers (http_request m ps opts s) = timers s"
  by (simp_all add: http_request_def generateRequestId_def Let_def)

lemma http_request_posted:
  "posted (http_request m ps opts s) = posted s @ [[request_of m ps opts s]]"
  by (simp add: http_request_def request_of_def generateRequestId_def Let_def)

lemma request_of_autoConnect_method:
  "request_of m ps opts (autoConnect_method constructed s) = request_of m ps opts s"
  by (simp add: request_of_def generateRequestId_def Let_def autoConnect_method_other)

lemma callViaWebSocket_posted:
  "posted (snd (callViaWebSocket m ps opts s)) = posted s"
  by (simp add: callViaWebSocket_def sendMessage_def generateRequestId_def setTimeout_def
      Let_def split: option.splits)

lemma sendMessage_cases:
  "ws s' = ws s \<Longrightarrow> sockets s' = sockets s \<Longrightarrow>
   sendMessage r s' =
     (if socket_open s then Inr (s'\<lparr>sent := sent s' @ [r]\<rparr>) else Inl WebSocketNotConnected)"
  by (auto simp: sendMessage_def socket_open_def socket_state_def split: option.splits)

lemma callViaWebSocket_sends:
  assumes "connectionState s = CONNECTED" "socket_open s"
  shows "sent (snd (callViaWebSocket m ps opts s)) = sent s @ [request_of m ps opts s]"
    and "fst (callViaWebSocket m ps opts s) =
         (if notification opts then Resolved JUndefined else Pending (next_promise s))"
  using assms
  by (simp_all add: callViaWebSocket_def sendMessage_cases [where s = s] generateRequestId_def
      setTimeout_def Let_def request_of_def)

lemma callViaWebSocket_send_fails:
  assumes "connectionState s = CONNECTED" "\<not> socket_open s"
  shows "sent (snd (callViaWebSocket m ps opts s)) = sent s"
    and "fst (callViaWebSocket m ps opts s) = Rejected WebSocketNotConnected"
  using assms
  by (simp_all add: callViaWebSocket_def sendMessage_cases [where s = s] generateRequestId_def
      setTimeout_def Let_def)

subsection \<open>Runs that exhaust the ids\<close>

lemma run_Nil: "run [] s = s"
  by (simp add: run_def)

lemma run_Cons: "run (e # es) s = run es (step e s)"
  by (simp add: run_def)

lemma run_append: "run (xs @ ys) s = run ys (run xs s)"
  by (simp add: run_def)

lemma http_calls_requestId:
  "requestId s \<le> id_limit \<Longrightarrow>
   requestId (run (replicate n (CallViaHTTP http m ps plain_call)) s) =
     min (requestId s + n) id_limit"
proof (induction n arbitrary: s)
  case 0
  then show ?case by (simp add: run_def)
next
  case (Suc n)
  let ?s1 = "step (CallViaHTTP http m ps plain_call) s"
  have r: "requestId ?s1 = double_succ (requestId s)"
    by (simp add: callViaHTTP_def http_request_def generateRequestId_def plain_call_def Let_def)
  have le: "requestId ?s1 \<le> id_limit"
    unfolding r using Suc.prems by (rule double_succ_facts(4))
  have "min (double_succ (requestId s) + n) id_limit = min (requestId s + Suc n) id_limit"
  proof (cases "requestId s < id_limit")
    case True
    then show ?thesis by (simp add: double_succ_facts)
  next
    case False
    then have "requestId s = id_limit" using Suc.prems by simp
    then show ?thesis by (simp add: double_succ_facts)
  qed
  then show ?case
    using Suc.IH [OF le] by (simp add: run_Cons r del: step.simps)
qed

lemma http_calls_fields:
  "connectionState (run (replicate n (CallViaHTTP http m ps opts)) s) = connectionState s"
  "ws (run (replicate n (CallViaHTTP http m ps opts)) s) = ws s"
  "sockets (run (replicate n (CallViaHTTP http m ps opts)) s) = sockets s"
  "pendingRequests (run (replicate n (CallViaHTTP http m ps opts)) s) = pendingRequests s"
  "timers (run (replicate n (CallViaHTTP http m ps opts)) s) = timers s"
  "next_timer (run (replicate n (CallViaHTTP http m ps opts)) s) = next_timer s"
  "next_promise (run (replicate n (CallViaHTTP http m ps opts)) s) = next_promise s"
  "sent (run (replicate n (CallViaHTTP http m ps opts)) s) = sent s"
  "settled (run (replicate n (CallViaHTTP http m ps opts)) s) = settled s"
  "options (run (replicate n (CallViaHTTP http m ps opts)) s) = options s"
  by (induction n arbitrary: s;
      simp add: run_Nil run_Cons callViaHTTP_def http_request_def generateRequestId_def Let_def)+


lemma default_requestTimeout: "requestTimeout default_options = 30000"
  by (simp add: default_options_def)

lemma exhausting_run_fields:
  "connectionState (run exhausting_run (new_RPC2Client True default_options)) = CONNECTED"
  "ws (run exhausting_run (new_RPC2Client True default_options)) = Some 0"
  "sockets (run exhausting_run (new_RPC2Client True default_options)) = [WS_OPEN]"
  "pendingRequests (run exhausting_run (new_RPC2Client True default_options)) = []"
  "next_timer (run exhausting_run (new_RPC2Client True default_options)) = 3"
  "next_promise (run exhausting_run (new_RPC2Client True default_options)) = 0"
  "sent (run exhausting_run (new_RPC2Client True default_options)) = []"
  "settled (run exhausting_run (new_RPC2Client True default_options)) = []"
  "options (run exhausting_run (new_RPC2Client True default_options)) = default_options"
  "requestId (run exhausting_run (new_RPC2Client True default_options)) = id_limit"
proof -
  have r: "run exhausting_run (new_RPC2Client True default_options) =
      run (replicate id_limit (CallViaHTTP ThrowsOther ''m'' JNull plain_call)) connected_client"
    by (simp add: exhausting_run_def connected_client_def run_Cons run_Nil del: step.simps)
  show "connectionState (run exhausting_run (new_RPC2Client True default_options)) = CONNECTED"
    "ws (run exhausting_run (new_RPC2Client True default_options)) = Some 0"
    "sockets (run exhausting_run (new_RPC2Client True default_options)) = [WS_OPEN]"
    "pendingRequests (run exhausting_run (new_RPC2Client True default_options)) = []"
    "next_timer (run exhausting_run (new_RPC2Client True default_options)) = 3"
    "next_promise (run exhausting_run (new_RPC2Client True default_options)) = 0"
    "sent (run exhausting_run (new_RPC2Client True default_options)) = []"
    "settled (run exhausting_run (new_RPC2Client True default_options)) = []"
    "options (run exhausting_run (new_RPC2Client True default_options)) = default_options"
    by (simp_all add: r http_calls_fields connected_client_fields)
  have "requestId connected_client \<le> id_limit" by (simp add: connected_client_fields)
  from http_calls_requestId [OF this]
  show "requestId (run exhausting_run (new_RPC2Client True default_options)) = id_limit"
    by (simp add: r connected_client_fields)
qed

subsection \<open>What disconnect establishes\<close>

text \<open>
  \<open>disconnect()\<close> rejects every entry of the correlation table with the fixed "connection
  closed" error, in the order of the table, clears the timeout of each of them and leaves
  the table empty; it clears the reconnect timer and the heartbeat interval whose handles
  the client holds, switches auto-reconnect off and sets the state to \<open>DISCONNECTED\<close>.
\<close>

lemma disconnect_effects:
  "pendingRequests (disconnect s) = []
 \<and> settled (disconnect s) =
     settled s @ map (\<lambda>e. (promise (snd e), Inl ConnectionClosed)) (pendingRequests s)
 \<and> (\<forall>e \<in> set (pendingRequests s). \<forall>t. timeout (snd e) = Some t \<longrightarrow>
       timers (disconnect s) t = None)
 \<and> (\<forall>t. reconnectTimeout s = Some t \<longrightarrow> timers (disconnect s) t = None)
 \<and> reconnectTimeout (disconnect s) = None
 \<and> (\<forall>h. heartbeatInterval s = Some h \<longrightarrow> timers (disconnect s) h = None)
 \<and> heartbeatInterval (disconnect s) = None
 \<and> \<not> autoReconnect (options (disconnect s))
 \<and> connectionState (disconnect s) = DISCONNECTED"
  by (simp add: disconnect_split clearPendingRequests_def clearPending_settled
      clearPending_timers clearPending_other disconnect_prefix_fields disconnect_prefix_timers)

subsection \<open>The state after call\<close>

lemma call_connected:
  assumes "connectionState s = CONNECTED"
  shows "call constructed ws_settlement http m ps opts s =
     (case duplex_outcome (fst (callViaWebSocket m ps opts s)) ws_settlement of
        Inr v \<Rightarrow> (Inr v, [ViaWebSocket], snd (callViaWebSocket m ps opts s))
      | Inl wsErr \<Rightarrow>
          (http_outcome http m opts, [ViaWebSocket, ViaHTTP],
           http_request m ps opts (snd (callViaWebSocket m ps opts s))))"
  using assms by (simp add: call_def Let_def callViaHTTP_def split: sum.splits)

lemma call_connected_state:
  assumes "connectionState s = CONNECTED"
  shows "sent (snd (snd (call constructed ws_settlement http m ps opts s))) =
           sent (snd (callViaWebSocket m ps opts s))"
    and "pendingRequests (snd (snd (call constructed ws_settlement http m ps opts s))) =
           pendingRequests (snd (callViaWebSocket m ps opts s))"
  by (simp_all add: call_connected [OF assms] http_request_fields split: sum.splits)

lemma call_not_connected:
  assumes "connectionState s \<noteq> CONNECTED"
  shows "call constructed ws_settlement http m ps opts s =
     (http_outcome http m opts, [ViaHTTP],
      http_request m ps opts
        (if autoConnect (options s) \<and> connectionState s = DISCONNECTED
         then autoConnect_method constructed s else s))"
proof -
  let ?s1 = "if autoConnect (options s) \<and> connectionState s = DISCONNECTED
             then autoConnect_method constructed s else s"
  have "connectionState ?s1 \<noteq> CONNECTED"
    using assms by (simp add: autoConnect_method_not_connected)
  then show ?thesis by (simp add: call_def Let_def callViaHTTP_def)
qed
subsection \<open>Dual-carrier dispatch\<close>

text \<open>
  Claim C1. For every \<open>call(method, params, options)\<close>, by its effects on the client. When
  the connection state is \<open>CONNECTED\<close>, \<open>callViaWebSocket\<close> is attempted first: the state
  after \<open>call\<close> holds the request on the socket whenever the socket is open, and for a
  correlated call the pending entry under the id of that request with a fresh promise and
  timeout; with a socket that is not open the attempt fails by a throw. If the attempt
  succeeds, its value is the result, the state is the one \<open>callViaWebSocket\<close> left and
  nothing is posted. If it fails in any way (a throw, a rejection by an error response, the
  timeout or \<open>disconnect\<close>), \<open>callViaHTTP\<close> is attempted exactly once on the state that
  \<open>callViaWebSocket\<close> left: exactly one batch of exactly one request is posted, built from
  the same method and parameters with the next id, nothing more goes on the socket, and the
  outcome of that exchange, success or its own error, is the result. When the connection
  state is anything else, the duplex path is not attempted (nothing is sent on the socket,
  no pending call is registered, no request timeout is started), exactly one request is
  posted and the result is the outcome of that one \<open>callViaHTTP\<close> attempt.
\<close>

theorem call_dispatch:
  "(connectionState s = CONNECTED \<longrightarrow>
      (socket_open s \<longrightarrow>
         sent (snd (snd (call constructed ws_settlement http m ps opts s))) =
           sent s @ [request_of m ps opts s])
    \<and> (\<not> socket_open s \<longrightarrow>
         sent (snd (snd (call constructed ws_settlement http m ps opts s))) = sent s
       \<and> duplex_outcome (fst (callViaWebSocket m ps opts s)) ws_settlement =
           Inl WebSocketNotConnected)
    \<and> (\<not> notification opts \<longrightarrow>
         Map_get (pendingRequests (snd (snd (call constructed ws_settlement http m ps opts s))))
           (request_id (request_of m ps opts s)) =
           Some \<lparr>promise = next_promise s, timeout = Some (next_timer s)\<rparr>
       \<and> (\<exists>d. timers (snd (snd (call constructed ws_settlement http m ps opts s)))
                 (next_timer s) =
             Some (d, RequestTimeout (request_id (request_of m ps opts s)) (next_promise s) m)))
    \<and> (\<forall>v. duplex_outcome (fst (callViaWebSocket m ps opts s)) ws_settlement = Inr v \<longrightarrow>
          call constructed ws_settlement http m ps opts s =
            (Inr v, [ViaWebSocket], snd (callViaWebSocket m ps opts s))
        \<and> posted (snd (snd (call constructed ws_settlement http m ps opts s))) = posted s)
    \<and> (\<forall>wsErr. duplex_outcome (fst (callViaWebSocket m ps opts s)) ws_settlement = Inl wsErr \<longrightarrow>
          call constructed ws_settlement http m ps opts s =
            (http_outcome http m opts, [ViaWebSocket, ViaHTTP],
             http_request m ps opts (snd (callViaWebSocket m ps opts s)))
        \<and> fst (call constructed ws_settlement http m ps opts s) =
            fst (callViaHTTP http m ps opts (snd (callViaWebSocket m ps opts s)))
        \<and> posted (snd (snd (call constructed ws_settlement http m ps opts s))) =
            posted s @ [[request_of m ps opts (snd (callViaWebSocket m ps opts s))]]))
 \<and> (connectionState s \<noteq> CONNECTED \<longrightarrow>
      fst (call constructed ws_settlement http m ps opts s) = http_outcome http m opts
    \<and> fst (snd (call constructed ws_settlement http m ps opts s)) = [ViaHTTP]
    \<and> sent (snd (snd (call constructed ws_settlement http m ps opts s))) = sent s
    \<and> pendingRequests (snd (snd (call constructed ws_settlement http m ps opts s))) =
        pendingRequests s
    \<and> (\<forall>t d k p m'.
          timers (snd (snd (call constructed ws_settlement http m ps opts s))) t =
            Some (d, RequestTimeout k p m') \<longrightarrow>
          timers s t = Some (d, RequestTimeout k p m'))
    \<and> posted (snd (snd (call constructed ws_settlement http m ps opts s))) =
        posted s @ [[request_of m ps opts s]])"
proof -
  let ?call = "call constructed ws_settlement http m ps opts s"
  let ?w = "callViaWebSocket m ps opts s"
  show ?thesis
  proof (cases "connectionState s = CONNECTED")
    case True
    note st = call_connected_state [OF True, of constructed ws_settlement http m ps opts]
    have a: "sent (snd (snd (?call))) = sent s @ [request_of m ps opts s]" if "socket_open s"
      using callViaWebSocket_sends(1) [OF True that] by (simp add: st)
    have b: "sent (snd (snd (?call))) = sent s
         \<and> duplex_outcome (fst (?w)) ws_settlement = Inl WebSocketNotConnected"
      if "\<not> socket_open s"
      using callViaWebSocket_send_fails [OF True that]
      by (simp add: st duplex_outcome_def)
    have c: "Map_get (pendingRequests (snd (snd (?call)))) (request_id (request_of m ps opts s)) =
             Some \<lparr>promise = next_promise s, timeout = Some (next_timer s)\<rparr>
         \<and> (\<exists>d. timers (snd (snd (?call))) (next_timer s) =
               Some (d, RequestTimeout (request_id (request_of m ps opts s)) (next_promise s) m))"
      if "\<not> notification opts"
    proof -
      have "timers (snd (snd (?call))) = timers (snd (?w))"
        by (simp add: call_connected [OF True] http_request_fields split: sum.splits)
      then show ?thesis
        using callViaWebSocket_registers [OF True that, of m ps]
          callViaWebSocket_correlated(5) [OF True that, of m ps] that
        by (simp add: st request_of_def)
    qed
    have d: "?call = (Inr v, [ViaWebSocket], snd (?w)) \<and> posted (snd (snd (?call))) = posted s"
      if "duplex_outcome (fst (?w)) ws_settlement = Inr v" for v
      using that by (simp add: call_connected [OF True] callViaWebSocket_posted)
    have e: "?call =
              (http_outcome http m opts, [ViaWebSocket, ViaHTTP],
               http_request m ps opts (snd (?w)))
          \<and> fst (?call) = fst (callViaHTTP http m ps opts (snd (?w)))
          \<and> posted (snd (snd (?call))) =
              posted s @ [[request_of m ps opts (snd (?w))]]"
      if "duplex_outcome (fst (?w)) ws_settlement = Inl wsErr" for wsErr
      using that
      by (simp add: call_connected [OF True] callViaHTTP_def http_request_posted
          callViaWebSocket_posted)
    show ?thesis
      using True a b c d e by blast
  next
    case False
    let ?s1 = "if autoConnect (options s) \<and> connectionState s = DISCONNECTED
               then autoConnect_method constructed s else s"
    have f: "sent ?s1 = sent s" "pendingRequests ?s1 = pendingRequests s" "posted ?s1 = posted s"
      "request_of m ps opts ?s1 = request_of m ps opts s"
      by (simp_all add: autoConnect_method_fields request_of_autoConnect_method)
    have g: "timers s t = Some (d, RequestTimeout k p m')"
      if "timers ?s1 t = Some (d, RequestTimeout k p m')" for t d k p m'
      using that autoConnect_method_other(2) [of constructed s t d k p m']
      by (simp split: if_splits)
    note c = call_not_connected [OF False, of constructed ws_settlement http m ps opts]
    have h: "fst (?call) = http_outcome http m opts" "fst (snd (?call)) = [ViaHTTP]"
      "sent (snd (snd (?call))) = sent s"
      "pendingRequests (snd (snd (?call))) = pendingRequests s"
      "posted (snd (snd (?call))) = posted s @ [[request_of m ps opts s]]"
      "timers (snd (snd (?call))) = timers ?s1"
      unfolding c by (simp_all add: http_request_posted http_request_fields f)
    show ?thesis
      using False h(1-5) g unfolding h(6) by blast
  qed
qed

theorem call_dispatch_witness:
  "connectionState connected_client = CONNECTED
 \<and> socket_open connected_client
 \<and> \<not> notification plain_call
 \<and> duplex_outcome (fst (callViaWebSocket ''m'' JNull plain_call connected_client))
      (Inl (RequestTimedOut ''m'')) = Inl (RequestTimedOut ''m'')
 \<and> call True (Inl (RequestTimedOut ''m'')) (HttpResponse True 200 ''OK'' (Result (JNum 1)))
      ''m'' JNull plain_call connected_client =
    (Inr (JNum 1), [ViaWebSocket, ViaHTTP],
     http_request ''m'' JNull plain_call
       (snd (callViaWebSocket ''m'' JNull plain_call connected_client)))
 \<and> sent (snd (snd (call True (Inl (RequestTimedOut ''m''))
      (HttpResponse True 200 ''OK'' (Result (JNum 1))) ''m'' JNull plain_call connected_client)))
      = [\<lparr>rpc_method = ''m'', params = JNull, request_id = IdNum 1\<rparr>]
 \<and> Map_get (pendingRequests (snd (snd (call True (Inl (RequestTimedOut ''m''))
      (HttpResponse True 200 ''OK'' (Result (JNum 1))) ''m'' JNull plain_call connected_client))))
      (IdNum 1) = Some \<lparr>promise = 0, timeout = Some 3\<rparr>
 \<and> posted (snd (snd (call True (Inl (RequestTimedOut ''m''))
      (HttpResponse True 200 ''OK'' (Result (JNum 1))) ''m'' JNull plain_call connected_client)))
      = [[\<lparr>rpc_method = ''m'', params = JNull, request_id = IdNum 2\<rparr>]]
 \<and> duplex_outcome (fst (callViaWebSocket ''m'' JNull plain_call connected_client))
      (Inr (JNum 5)) = Inr (JNum 5)
 \<and> call True (Inr (JNum 5)) ThrowsOther ''m'' JNull plain_call connected_client =
    (Inr (JNum 5), [ViaWebSocket],
     snd (callViaWebSocket ''m'' JNull plain_call connected_client))
 \<and> posted (snd (snd (call True (Inr (JNum 5)) ThrowsOther ''m'' JNull plain_call
      connected_client))) = []
 \<and> connectionState (new_RPC2Client True default_options) \<noteq> CONNECTED
 \<and> fst (call True (Inr JNull) (ThrowsError ''offline'') ''m'' JNull plain_call
      (new_RPC2Client True default_options)) = Inl (FetchError ''offline'')
 \<and> fst (snd (call True (Inr JNull) (ThrowsError ''offline'') ''m'' JNull plain_call
      (new_RPC2Client True default_options))) = [ViaHTTP]
 \<and> sent (snd (snd (call True (Inr JNull) (ThrowsError ''offline'') ''m'' JNull plain_call
      (new_RPC2Client True default_options)))) = []
 \<and> posted (snd (snd (call True (Inr JNull) (ThrowsError ''offline'') ''m'' JNull plain_call
      (new_RPC2Client True default_options)))) =
    [[\<lparr>rpc_method = ''m'', params = JNull, request_id = IdNum 1\<rparr>]]
 \<and> connectionState closing_client = CONNECTED
 \<and> \<not> socket_open closing_client
 \<and> duplex_outcome (fst (callViaWebSocket ''m'' JNull plain_call closing_client)) (Inr JNull) =
      Inl WebSocketNotConnected
 \<and> call True (Inr JNull) (HttpResponse True 200 ''OK'' (Result (JNum 1))) ''m'' JNull
      plain_call closing_client =
    (Inr (JNum 1), [ViaWebSocket, ViaHTTP],
     http_request ''m'' JNull plain_call
       (snd (callViaWebSocket ''m'' JNull plain_call closing_client)))
 \<and> sent (snd (snd (call True (Inr JNull) (HttpResponse True 200 ''OK'' (Result (JNum 1)))
      ''m'' JNull plain_call closing_client))) = []
 \<and> connectionState reconnecting_client \<noteq> CONNECTED
 \<and> timers (snd (snd (call True (Inr JNull) (HttpResponse True 200 ''OK'' (Result (JNum 1)))
      ''m'' JNull plain_call reconnecting_client))) 3 =
    Some (30000, RequestTimeout (IdNum 1) 0 ''m'')
 \<and> timers reconnecting_client 3 = Some (30000, RequestTimeout (IdNum 1) 0 ''m'')
 \<and> pendingRequests (snd (snd (call True (Inr JNull)
      (HttpResponse True 200 ''OK'' (Result (JNum 1))) ''m'' JNull plain_call
      reconnecting_client))) = [(IdNum 1, \<lparr>promise = 0, timeout = Some 3\<rparr>)]
 \<and> posted (snd (snd (call True (Inr JNull)
      (HttpResponse True 200 ''OK'' (Result (JNum 1))) ''m'' JNull plain_call
      reconnecting_client))) =
    [[\<lparr>rpc_method = ''m'', params = JNull, request_id = IdNum 2\<rparr>]]"
proof -
  let ?ok = "HttpResponse True 200 ''OK'' (Result (JNum 1))"
  let ?late = "Inl (RequestTimedOut ''m'') :: rpc_error + jsval"
  let ?new = "new_RPC2Client True default_options"
  have h1: "connectionState connected_client = CONNECTED"
    by (simp add: connected_client_fields)
  have h2: "socket_open connected_client"
    by (simp add: socket_open_def socket_state_def connected_client_fields)
  have h3: "\<not> notification plain_call"
    by (simp add: plain_call_def)
  have p: "fst (callViaWebSocket ''m'' JNull plain_call connected_client) = Pending 0"
    using callViaWebSocket_sends(2) [OF h1 h2, of "''m''" JNull plain_call] h3
    by (simp add: connected_client_fields)
  have h4: "duplex_outcome (fst (callViaWebSocket ''m'' JNull plain_call connected_client))
      ?late = ?late"
    by (simp add: p duplex_outcome_def)
  have h5: "duplex_outcome (fst (callViaWebSocket ''m'' JNull plain_call connected_client))
      (Inr (JNum 5)) = Inr (JNum 5)"
    by (simp add: p duplex_outcome_def)
  have h6: "connectionState ?new \<noteq> CONNECTED"
    by (simp add: client_defs)
  have o1: "http_outcome ?ok ''m'' plain_call = Inr (JNum 1)"
    by (simp add: http_outcome_def plain_call_def)
  have o2: "http_outcome (ThrowsError ''offline'') ''m'' plain_call = Inl (FetchError ''offline'')"
    by (simp add: http_outcome_def)
  have r1: "request_of ''m'' JNull plain_call connected_client =
      \<lparr>rpc_method = ''m'', params = JNull, request_id = IdNum 1\<rparr>"
    by (simp add: request_of_def generateRequestId_def plain_call_def connected_client_fields
        id_limit_def double_succ_def)
  have r2: "request_of ''m'' JNull plain_call
        (snd (callViaWebSocket ''m'' JNull plain_call connected_client)) =
      \<lparr>rpc_method = ''m'', params = JNull, request_id = IdNum 2\<rparr>"
    using callViaWebSocket_correlated(2) [OF h1 h3, of "''m''" JNull]
    by (simp add: request_of_def generateRequestId_def plain_call_def connected_client_fields
        id_limit_def double_succ_def)
  have r3: "request_of ''m'' JNull plain_call ?new =
      \<lparr>rpc_method = ''m'', params = JNull, request_id = IdNum 1\<rparr>"
    by (simp add: request_of_def plain_call_def client_defs)
  have e: "sent ?new = []" "posted ?new = []"
    by (simp_all add: client_defs)
  note w1 = call_dispatch [of connected_client True ?late ?ok "''m''" JNull plain_call]
  note w2 = call_dispatch [of connected_client True "Inr (JNum 5)" ThrowsOther "''m''" JNull
        plain_call]
  note w3 = call_dispatch [of ?new True "Inr JNull" "ThrowsError ''offline''" "''m''" JNull
        plain_call]
  let ?c1 = "call True ?late ?ok ''m'' JNull plain_call connected_client"
  let ?c2 = "call True (Inr (JNum 5)) ThrowsOther ''m'' JNull plain_call connected_client"
  let ?c3 = "call True (Inr JNull) (ThrowsError ''offline'') ''m'' JNull plain_call ?new"
  let ?w = "callViaWebSocket ''m'' JNull plain_call connected_client"
  have "sent (snd (snd ?c1)) =
      sent connected_client @ [request_of ''m'' JNull plain_call connected_client]"
    using w1 h1 h2 by blast
  then have a1: "sent (snd (snd ?c1)) =
      [\<lparr>rpc_method = ''m'', params = JNull, request_id = IdNum 1\<rparr>]"
    by (simp add: r1 connected_client_fields)
  have "Map_get (pendingRequests (snd (snd ?c1)))
        (request_id (request_of ''m'' JNull plain_call connected_client)) =
      Some \<lparr>promise = next_promise connected_client,
            timeout = Some (next_timer connected_client)\<rparr>"
    using w1 h1 h3 by blast
  then have a2: "Map_get (pendingRequests (snd (snd ?c1))) (IdNum 1) =
      Some \<lparr>promise = 0, timeout = Some 3\<rparr>"
    by (simp add: r1 connected_client_fields)
  have "?c1 = (http_outcome ?ok ''m'' plain_call, [ViaWebSocket, ViaHTTP],
      http_request ''m'' JNull plain_call (snd ?w))"
    using w1 h1 h4 by blast
  then have a3: "?c1 = (Inr (JNum 1), [ViaWebSocket, ViaHTTP],
      http_request ''m'' JNull plain_call (snd ?w))"
    by (simp only: o1)
  have "posted (snd (snd ?c1)) =
      posted connected_client @ [[request_of ''m'' JNull plain_call (snd ?w)]]"
    using w1 h1 h4 by blast
  then have a4: "posted (snd (snd ?c1)) =
      [[\<lparr>rpc_method = ''m'', params = JNull, request_id = IdNum 2\<rparr>]]"
    by (simp add: r2 connected_client_fields)
  have b1: "?c2 = (Inr (JNum 5), [ViaWebSocket], snd ?w)"
    using w2 h1 h5 by blast
  have "posted (snd (snd ?c2)) = posted connected_client"
    using w2 h1 h5 by blast
  then have b2: "posted (snd (snd ?c2)) = []"
    by (simp add: connected_client_fields)
  have "fst ?c3 = http_outcome (ThrowsError ''offline'') ''m'' plain_call"
    using w3 h6 by blast
  then have c1: "fst ?c3 = Inl (FetchError ''offline'')"
    by (simp only: o2)
  have c2: "fst (snd ?c3) = [ViaHTTP]"
    using w3 h6 by blast
  have "sent (snd (snd ?c3)) = sent ?new"
    using w3 h6 by blast
  then have c3: "sent (snd (snd ?c3)) = []"
    by (simp only: e)
  have "posted (snd (snd ?c3)) = posted ?new @ [[request_of ''m'' JNull plain_call ?new]]"
    using w3 h6 by blast
  then have c4: "posted (snd (snd ?c3)) =
      [[\<lparr>rpc_method = ''m'', params = JNull, request_id = IdNum 1\<rparr>]]"
    by (simp only: e r3 append_Nil)
  let ?c4 = "call True (Inr JNull) ?ok ''m'' JNull plain_call closing_client"
  let ?c5 = "call True (Inr JNull) ?ok ''m'' JNull plain_call reconnecting_client"
  note w4 = call_dispatch [of closing_client True "Inr JNull" ?ok "''m''" JNull plain_call]
  note w5 = call_dispatch [of reconnecting_client True "Inr JNull" ?ok "''m''" JNull plain_call]
  have h7: "connectionState closing_client = CONNECTED"
    by (simp add: closing_client_fields)
  have h8: "\<not> socket_open closing_client"
    by (simp add: closing_client_fields)
  have d1: "duplex_outcome (fst (callViaWebSocket ''m'' JNull plain_call closing_client))
      (Inr JNull) = Inl WebSocketNotConnected"
    using w4 h7 h8 by blast
  have "?c4 = (http_outcome ?ok ''m'' plain_call, [ViaWebSocket, ViaHTTP],
      http_request ''m'' JNull plain_call
        (snd (callViaWebSocket ''m'' JNull plain_call closing_client)))"
    using w4 h7 d1 by blast
  then have d2: "?c4 = (Inr (JNum 1), [ViaWebSocket, ViaHTTP],
      http_request ''m'' JNull plain_call
        (snd (callViaWebSocket ''m'' JNull plain_call closing_client)))"
    by (simp only: o1)
  have "sent (snd (snd ?c4)) = sent closing_client"
    using w4 h7 h8 by blast
  then have d3: "sent (snd (snd ?c4)) = []"
    by (simp add: closing_client_fields)
  have h9: "connectionState reconnecting_client \<noteq> CONNECTED"
    by (simp add: reconnecting_client_fields)
  have h10: "timers (snd (snd ?c5)) 3 = Some (30000, RequestTimeout (IdNum 1) 0 ''m'')"
    by (simp add: call_not_connected [OF h9] http_request_fields reconnecting_client_fields)
  have e1: "timers reconnecting_client 3 = Some (30000, RequestTimeout (IdNum 1) 0 ''m'')"
    using w5 h9 h10 by blast
  have "pendingRequests (snd (snd ?c5)) = pendingRequests reconnecting_client"
    using w5 h9 by blast
  then have e2: "pendingRequests (snd (snd ?c5)) =
      [(IdNum 1, \<lparr>promise = 0, timeout = Some 3\<rparr>)]"
    by (simp add: reconnecting_client_fields)
  have r4: "request_of ''m'' JNull plain_call reconnecting_client =
      \<lparr>rpc_method = ''m'', params = JNull, request_id = IdNum 2\<rparr>"
    by (simp add: request_of_def generateRequestId_def plain_call_def
        reconnecting_client_fields id_limit_def double_succ_def)
  have "posted (snd (snd ?c5)) =
      posted reconnecting_client @ [[request_of ''m'' JNull plain_call reconnecting_client]]"
    using w5 h9 by blast
  then have e3: "posted (snd (snd ?c5)) =
      [[\<lparr>rpc_method = ''m'', params = JNull, request_id = IdNum 2\<rparr>]]"
    by (simp add: r4 reconnecting_client_fields)
  show ?thesis
    using h1 h2 h3 h4 h5 h6 a1 a2 a3 a4 b1 b2 c1 c2 c3 c4 h7 h8 d1 d2 d3 h9 h10 e1 e2 e3
    by blast
qed

subsection \<open>Correlation of responses\<close>

text \<open>
  Claim C4. A response whose id matches an entry of the correlation table removes the
  entry, clears its timeout and settles its promise (resolve with the result, or reject
  with the RPC error). A request timeout that fires removes the entry and rejects the
  promise, and a response for that id arriving afterwards changes nothing. A message
  without a truthy id, or whose id matches no entry, changes nothing; in particular the
  duplicate of any response changes nothing. In every run of a client, from its
  construction on, no promise is settled more than once by these handlers.
\<close>

theorem pending_call_settled_at_most_once:
  "(\<forall>pe. id_truthy (response_id data)
         \<and> Map_get (pendingRequests s) (response_id data) = Some pe \<longrightarrow>
       pendingRequests (handleMessage data s) =
         Map_delete (pendingRequests s) (response_id data)
     \<and> settled (handleMessage data s) =
         settled s @ [(promise pe,
           case payload data of
             ErrorObject code message \<Rightarrow> Inl (RPCError code message)
           | Result result \<Rightarrow> Inr result)]
     \<and> (\<forall>t. timeout pe = Some t \<longrightarrow> timers (handleMessage data s) t = None))
 \<and> (\<forall>d. timers s t = Some (d, RequestTimeout rid p m) \<longrightarrow>
       pendingRequests (step (TimerFires t constructed date_now) s) =
         Map_delete (pendingRequests s) rid
     \<and> settled (step (TimerFires t constructed date_now) s) =
         settled s @ [(p, Inl (RequestTimedOut m))]
     \<and> timers (step (TimerFires t constructed date_now) s) t = None
     \<and> (response_id data = rid \<longrightarrow>
          handleMessage data (step (TimerFires t constructed date_now) s) =
            step (TimerFires t constructed date_now) s))
 \<and> (\<not> id_truthy (response_id data)
      \<or> Map_get (pendingRequests s) (response_id data) = None \<longrightarrow>
       handleMessage data s = s)
 \<and> handleMessage data (handleMessage data s) = handleMessage data s
 \<and> distinct (map fst (settled (run events (new_RPC2Client constructed opts))))"
proof -
  have late: "handleMessage data (step (TimerFires t constructed date_now) s) =
            step (TimerFires t constructed date_now) s"
    if "timers s t = Some (d, RequestTimeout rid p m)" "response_id data = rid" for d
  proof -
    have "Map_get (pendingRequests (step (TimerFires t constructed date_now) s))
            (response_id data) = None"
      using timer_fires_request(1) [OF that(1)] that(2) by (simp add: Map_get_Map_delete)
    then show ?thesis by (rule handleMessage_unmatched [OF disjI2])
  qed
  have "settled_ok (run events (new_RPC2Client constructed opts))"
    using reachable_inv by (rule inv_parts(5))
  then have "distinct (map fst (settled (run events (new_RPC2Client constructed opts))))"
    by (simp add: settled_ok_def)
  then show ?thesis
    using handleMessage_matched [of data s] timer_fires_request [of s t _ rid p m]
      late handleMessage_unmatched [of data s] handleMessage_idem [of data s]
    by (intro conjI allI impI) blast+
qed

theorem pending_call_settled_at_most_once_witness:
  "id_truthy (response_id \<lparr>response_id = IdNum 1, payload = Result (JNum 7)\<rparr>)
 \<and> Map_get (pendingRequests waiting_client)
      (response_id \<lparr>response_id = IdNum 1, payload = Result (JNum 7)\<rparr>) =
    Some \<lparr>promise = 0, timeout = Some 3\<rparr>
 \<and> timers waiting_client 3 = Some (30000, RequestTimeout (IdNum 1) 0 ''m'')
 \<and> settled (handleMessage \<lparr>response_id = IdNum 1, payload = Result (JNum 7)\<rparr> waiting_client) =
    [(0, Inr (JNum 7))]
 \<and> pendingRequests
      (handleMessage \<lparr>response_id = IdNum 1, payload = Result (JNum 7)\<rparr> waiting_client) = []
 \<and> timers (handleMessage \<lparr>response_id = IdNum 1, payload = Result (JNum 7)\<rparr> waiting_client) 3 =
    None
 \<and> settled (step (TimerFires 3 True 0) waiting_client) = [(0, Inl (RequestTimedOut ''m''))]
 \<and> handleMessage \<lparr>response_id = IdNum 1, payload = Result (JNum 7)\<rparr>
      (step (TimerFires 3 True 0) waiting_client) = step (TimerFires 3 True 0) waiting_client
 \<and> \<not> id_truthy (response_id \<lparr>response_id = IdAbsent, payload = Result (JNum 7)\<rparr>)
 \<and> handleMessage \<lparr>response_id = IdAbsent, payload = Result (JNum 7)\<rparr> waiting_client =
    waiting_client"
proof -
  let ?data = "\<lparr>response_id = IdNum 1, payload = Result (JNum 7)\<rparr>"
  let ?idless = "\<lparr>response_id = IdAbsent, payload = Result (JNum 7)\<rparr>"
  have h1: "id_truthy (response_id ?data)" by simp
  have h2: "Map_get (pendingRequests waiting_client) (response_id ?data) =
      Some \<lparr>promise = 0, timeout = Some 3\<rparr>"
    by (simp add: waiting_client_fields Map_get_def)
  have h3: "timers waiting_client 3 = Some (30000, RequestTimeout (IdNum 1) 0 ''m'')"
    by (simp add: waiting_client_fields)
  have h4: "\<not> id_truthy (response_id ?idless)" by simp
  note w1 = pending_call_settled_at_most_once
    [of ?data waiting_client 3 "IdNum 1" 0 "''m''" True 0]
  note w2 = pending_call_settled_at_most_once
    [of ?idless waiting_client 3 "IdNum 1" 0 "''m''" True 0]
  have a: "settled (handleMessage ?data waiting_client) = [(0, Inr (JNum 7))]
      \<and> pendingRequests (handleMessage ?data waiting_client) = []
      \<and> timers (handleMessage ?data waiting_client) 3 = None"
    using w1 h1 h2 by (simp add: waiting_client_fields Map_delete_def)
  have b: "settled (step (TimerFires 3 True 0) waiting_client) = [(0, Inl (RequestTimedOut ''m''))]
      \<and> handleMessage ?data (step (TimerFires 3 True 0) waiting_client) =
         step (TimerFires 3 True 0) waiting_client"
    using w1 h3 by (simp add: waiting_client_fields)
  have c: "handleMessage ?idless waiting_client = waiting_client"
    using w2 h4 by simp
  show ?thesis using h1 h2 h3 h4 a b c by blast
qed

subsection \<open>disconnect\<close>

text \<open>
  Claim C5. \<open>disconnect()\<close> is to reject every outstanding pending call, clear the
  timeouts, empty the correlation table, cancel the reconnect and heartbeat timers and
  disable auto-reconnect. The code does not cancel every reconnect timer:
  \<open>attemptReconnect\<close> stores the handle of the timer it starts in \<open>reconnectTimeout\<close> without
  clearing the timer whose handle is stored there (\<open>startHeartbeat\<close>, by contrast, clears
  the previous interval first), and \<open>disconnect\<close> clears the stored handle only. In the run
  below the first socket opens and closes, which schedules a reconnect (timer 3);
  \<open>connect()\<close> is called before that timer fires, and the second socket fails and closes,
  which schedules another reconnect (timer 5) over the handle of the first. After
  \<open>disconnect()\<close> the table is empty, the state is \<open>DISCONNECTED\<close>, auto-reconnect is off
  and no handle is stored, but timer 3 is still active; when it fires, the client
  constructs a third socket and is \<open>CONNECTING\<close> again.
\<close>

theorem disconnect_leaves_reconnect_timer:
  "timers (run [SocketOpen 0, SocketClose 0, Connect True, SocketError 1, SocketClose 1]
      (new_RPC2Client True default_options)) 3 = Some (3000, ReconnectTimer)
 \<and> timers (run [SocketOpen 0, SocketClose 0, Connect True, SocketError 1, SocketClose 1]
      (new_RPC2Client True default_options)) 5 = Some (3000, ReconnectTimer)
 \<and> reconnectTimeout (run [SocketOpen 0, SocketClose 0, Connect True, SocketError 1,
      SocketClose 1] (new_RPC2Client True default_options)) = Some 5
 \<and> timers (run [SocketOpen 0, SocketClose 0, Connect True, SocketError 1, SocketClose 1,
      Disconnect] (new_RPC2Client True default_options)) 3 = Some (3000, ReconnectTimer)
 \<and> timers (run [SocketOpen 0, SocketClose 0, Connect True, SocketError 1, SocketClose 1,
      Disconnect] (new_RPC2Client True default_options)) 5 = None
 \<and> reconnectTimeout (run [SocketOpen 0, SocketClose 0, Connect True, SocketError 1,
      SocketClose 1, Disconnect] (new_RPC2Client True default_options)) = None
 \<and> autoReconnect (options (run [SocketOpen 0, SocketClose 0, Connect True, SocketError 1,
      SocketClose 1, Disconnect] (new_RPC2Client True default_options))) = False
 \<and> connectionState (run [SocketOpen 0, SocketClose 0, Connect True, SocketError 1,
      SocketClose 1, Disconnect] (new_RPC2Client True default_options)) = DISCONNECTED
 \<and> length (sockets (run [SocketOpen 0, SocketClose 0, Connect True, SocketError 1,
      SocketClose 1, Disconnect] (new_RPC2Client True default_options))) = 2
 \<and> connectionState (run [SocketOpen 0, SocketClose 0, Connect True, SocketError 1,
      SocketClose 1, Disconnect, TimerFires 3 True 0]
      (new_RPC2Client True default_options)) = CONNECTING
 \<and> sockets (run [SocketOpen 0, SocketClose 0, Connect True, SocketError 1,
      SocketClose 1, Disconnect, TimerFires 3 True 0]
      (new_RPC2Client True default_options)) = [WS_CLOSED, WS_CLOSED, WS_CONNECTING]"
  by (simp add: client_defs)

subsection \<open>Reconnection policy\<close>



subsection \<open>connect while connected or connecting\<close>

text \<open>
  Claim C9. Calling \<open>connect()\<close> while the connection state is \<open>CONNECTED\<close> or
  \<open>CONNECTING\<close> returns at once and leaves the whole client state as it was: no socket is
  constructed, the connection state, the correlation table and all timers are unchanged.
\<close>

theorem connect_idempotent:
  assumes "connectionState s = CONNECTED \<or> connectionState s = CONNECTING"
  shows "connect constructed s = (Returned, s) \<and> step (Connect constructed) s = s"
  using assms by (auto simp: connect_def)

theorem connect_idempotent_witness:
  "(connectionState (new_RPC2Client True default_options) = CONNECTED
    \<or> connectionState (new_RPC2Client True default_options) = CONNECTING)
 \<and> connect True (new_RPC2Client True default_options) =
     (Returned, new_RPC2Client True default_options)
 \<and> connect True connected_client = (Returned, connected_client)"
proof -
  have h1: "connectionState (new_RPC2Client True default_options) = CONNECTED
    \<or> connectionState (new_RPC2Client True default_options) = CONNECTING"
    by (simp add: client_defs)
  have h2: "connectionState connected_client = CONNECTED
    \<or> connectionState connected_client = CONNECTING"
    by (simp add: connected_client_fields)
  show ?thesis
    using h1 connect_idempotent [OF h1, of True] connect_idempotent [OF h2, of True] by simp
qed

subsection \<open>Request ids\<close>

text \<open>
  Claim C10, as amended. The counter of a new client is zero and never exceeds \<open>2^53\<close>. While
  the counter is below \<open>2^53\<close>, \<open>generateRequestId\<close> returns the previous counter plus one,
  a correlated \<open>callViaWebSocket\<close> registers its pending call under that id, and in every
  run of a client the ids of the requests sent over the socket are strictly increasing and
  the next id is not a key of the correlation table, so no two requests in flight share an
  id. In every run, whatever the counter, the ids sent are positive, the keys of the
  correlation table are pairwise distinct positive integers and therefore truthy, and a
  response carrying the id of an outstanding entry is never discarded by the \<open>!data.id\<close>
  check: it removes the entry and settles its promise.
\<close>

theorem request_ids_increasing_below_limit:
  "requestId (new_RPC2Client constructed opts) = 0
 \<and> requestId (run events (new_RPC2Client constructed opts)) \<le> id_limit
 \<and> (requestId s < id_limit \<longrightarrow>
      fst (generateRequestId s) = requestId s + 1
    \<and> requestId (snd (generateRequestId s)) = requestId s + 1)
 \<and> (connectionState s = CONNECTED \<and> \<not> notification call_opts \<and> requestId s < id_limit \<longrightarrow>
      requestId (snd (callViaWebSocket m ps call_opts s)) = requestId s + 1
    \<and> Map_get (pendingRequests (snd (callViaWebSocket m ps call_opts s)))
         (IdNum (int (requestId s + 1))) =
       Some \<lparr>promise = next_promise s, timeout = Some (next_timer s)\<rparr>)
 \<and> (requestId (run events (new_RPC2Client constructed opts)) < id_limit \<longrightarrow>
      sorted_wrt (<) (sent_ids (run events (new_RPC2Client constructed opts)))
    \<and> IdNum (int (requestId (run events (new_RPC2Client constructed opts)) + 1)) \<notin>
        set (map fst (pendingRequests (run events (new_RPC2Client constructed opts)))))
 \<and> (\<forall>n \<in> set (sent_ids (run events (new_RPC2Client constructed opts))). 1 \<le> n)
 \<and> distinct (map fst (pendingRequests (run events (new_RPC2Client constructed opts))))
 \<and> (\<forall>k \<in> set (map fst (pendingRequests (run events (new_RPC2Client constructed opts)))).
      id_truthy k
    \<and> (\<exists>n. k = IdNum (int n) \<and> 1 \<le> n
          \<and> n \<le> requestId (run events (new_RPC2Client constructed opts))))
 \<and> (response_id data \<in>
        set (map fst (pendingRequests (run events (new_RPC2Client constructed opts)))) \<longrightarrow>
      id_truthy (response_id data)
    \<and> pendingRequests (handleMessage data (run events (new_RPC2Client constructed opts))) =
        Map_delete (pendingRequests (run events (new_RPC2Client constructed opts)))
          (response_id data)
    \<and> length (settled (handleMessage data (run events (new_RPC2Client constructed opts)))) =
        length (settled (run events (new_RPC2Client constructed opts))) + 1)"
proof -
  let ?r = "run events (new_RPC2Client constructed opts)"
  have inv: "client_inv ?r" by (rule reachable_inv)
  have ids: "ids_ok ?r" by (rule reachable_ids)
  have a: "fst (generateRequestId s) = requestId s + 1
      \<and> requestId (snd (generateRequestId s)) = requestId s + 1"
    if "requestId s < id_limit"
    using that generateRequestId_bounds(5,6) [of s] by simp
  have b: "requestId (new_RPC2Client constructed opts) = 0"
    by (simp add: new_RPC2Client_def Let_def autoConnect_method_def connect_def
        setConnectionState_def notify_def setTimeout_def)
  have c: "requestId (snd (callViaWebSocket m ps call_opts s)) = requestId s + 1
    \<and> Map_get (pendingRequests (snd (callViaWebSocket m ps call_opts s)))
         (IdNum (int (requestId s + 1))) =
       Some \<lparr>promise = next_promise s, timeout = Some (next_timer s)\<rparr>"
    if "connectionState s = CONNECTED \<and> \<not> notification call_opts \<and> requestId s < id_limit"
  proof -
    have g: "fst (generateRequestId s) = requestId s + 1"
      using a that by simp
    show ?thesis
      using callViaWebSocket_correlated(2) [of s call_opts m ps]
        callViaWebSocket_registers [of s call_opts m ps] that
      by (simp add: g)
  qed
  have d: "sorted_wrt (<) (sent_ids ?r)
      \<and> IdNum (int (requestId ?r + 1)) \<notin> set (map fst (pendingRequests ?r))"
    if "requestId ?r < id_limit"
    using ids_ok_sent(2) [OF ids that] ids_ok_next_fresh [OF ids] by simp
  have e: "\<forall>n \<in> set (sent_ids ?r). 1 \<le> n" "requestId ?r \<le> id_limit"
    using ids_ok_sent(1,3) [OF ids] by simp_all
  have f: "distinct (map fst (pendingRequests ?r))"
    using inv by (rule inv_parts(1))
  have g: "\<forall>k \<in> set (map fst (pendingRequests ?r)).
      id_truthy k \<and> (\<exists>n. k = IdNum (int n) \<and> 1 \<le> n \<and> n \<le> requestId ?r)"
    using ids_ok_keys [OF ids] by blast
  have h: "id_truthy (response_id data)
    \<and> pendingRequests (handleMessage data ?r) =
        Map_delete (pendingRequests ?r) (response_id data)
    \<and> length (settled (handleMessage data ?r)) = length (settled ?r) + 1"
    if "response_id data \<in> set (map fst (pendingRequests ?r))"
    using pending_response_settles [OF ids that] by simp
  show ?thesis
    using a b c d e f g h by (intro conjI impI) (assumption | blast)+
qed

theorem request_ids_increasing_below_limit_witness:
  "requestId connected_client < id_limit
 \<and> connectionState connected_client = CONNECTED \<and> \<not> notification plain_call
 \<and> fst (generateRequestId connected_client) = 1
 \<and> requestId (snd (callViaWebSocket ''m'' JNull plain_call connected_client)) = 1
 \<and> requestId (run [SocketOpen 0, CallViaWebSocket ''m'' JNull plain_call]
      (new_RPC2Client True default_options)) < id_limit
 \<and> sent_ids (run [SocketOpen 0, CallViaWebSocket ''m'' JNull plain_call]
      (new_RPC2Client True default_options)) = [1]
 \<and> IdNum 2 \<notin> set (map fst (pendingRequests
      (run [SocketOpen 0, CallViaWebSocket ''m'' JNull plain_call]
        (new_RPC2Client True default_options))))
 \<and> response_id \<lparr>response_id = IdNum 1, payload = Result (JNum 7)\<rparr> \<in>
      set (map fst (pendingRequests (run [SocketOpen 0, CallViaWebSocket ''m'' JNull plain_call]
        (new_RPC2Client True default_options))))
 \<and> id_truthy (response_id \<lparr>response_id = IdNum 1, payload = Result (JNum 7)\<rparr>)
 \<and> pendingRequests (handleMessage \<lparr>response_id = IdNum 1, payload = Result (JNum 7)\<rparr>
      (run [SocketOpen 0, CallViaWebSocket ''m'' JNull plain_call]
        (new_RPC2Client True default_options))) = []"
proof -
  let ?data = "\<lparr>response_id = IdNum 1, payload = Result (JNum 7)\<rparr>"
  let ?events = "[SocketOpen 0, CallViaWebSocket ''m'' JNull plain_call]"
  note w = request_ids_increasing_below_limit
    [of True default_options ?events connected_client plain_call "''m''" JNull ?data]
  have h0: "requestId connected_client < id_limit"
    by (simp add: connected_client_fields id_limit_def)
  have h1: "connectionState connected_client = CONNECTED \<and> \<not> notification plain_call"
    by (simp add: connected_client_fields plain_call_def)
  have h2: "response_id ?data \<in>
      set (map fst (pendingRequests (run ?events (new_RPC2Client True default_options))))"
    by (simp add: waiting_client_run [symmetric] waiting_client_fields)
  have h3: "requestId (run ?events (new_RPC2Client True default_options)) < id_limit"
    by (simp add: waiting_client_run [symmetric] waiting_client_fields id_limit_def)
  have a: "fst (generateRequestId connected_client) = 1
      \<and> requestId (snd (callViaWebSocket ''m'' JNull plain_call connected_client)) = 1"
    using w h0 h1 by (simp add: connected_client_fields)
  have b: "pendingRequests (handleMessage ?data
      (run ?events (new_RPC2Client True default_options))) = []"
    using w h2 by (simp add: waiting_client_run [symmetric] waiting_client_fields Map_delete_def)
  have c: "sent_ids (run ?events (new_RPC2Client True default_options)) = [1]"
    by (simp add: waiting_client_run [symmetric] waiting_client_fields)
  have d: "IdNum 2 \<notin> set (map fst (pendingRequests
      (run ?events (new_RPC2Client True default_options))))"
    using w h3 by (simp add: waiting_client_run [symmetric] waiting_client_fields)
  show ?thesis using h0 h1 h2 h3 a b c d by simp
qed

text \<open>
  Claim C10 as stated fails once the counter has reached \<open>2^53\<close>. After the run that uses
  up the ids, two correlated calls over the socket are given the same id \<open>2^53\<close>: the ids
  sent are not strictly increasing, both calls are in flight (both timeouts are active and
  nothing is settled) under one id, and the entry of the second call has replaced the entry
  of the first in the correlation table.
\<close>

theorem request_ids_repeat_counterexample:
  "sent_ids (run (exhausting_run @
      [CallViaWebSocket ''a'' JNull plain_call, CallViaWebSocket ''b'' JNull plain_call])
      (new_RPC2Client True default_options)) = [int id_limit, int id_limit]
 \<and> \<not> sorted_wrt (<) (sent_ids (run (exhausting_run @
      [CallViaWebSocket ''a'' JNull plain_call, CallViaWebSocket ''b'' JNull plain_call])
      (new_RPC2Client True default_options)))
 \<and> timers (run (exhausting_run @
      [CallViaWebSocket ''a'' JNull plain_call, CallViaWebSocket ''b'' JNull plain_call])
      (new_RPC2Client True default_options)) 3 =
    Some (30000, RequestTimeout (IdNum (int id_limit)) 0 ''a'')
 \<and> timers (run (exhausting_run @
      [CallViaWebSocket ''a'' JNull plain_call, CallViaWebSocket ''b'' JNull plain_call])
      (new_RPC2Client True default_options)) 4 =
    Some (30000, RequestTimeout (IdNum (int id_limit)) 1 ''b'')
 \<and> settled (run (exhausting_run @
      [CallViaWebSocket ''a'' JNull plain_call, CallViaWebSocket ''b'' JNull plain_call])
      (new_RPC2Client True default_options)) = []
 \<and> pendingRequests (run (exhausting_run @
      [CallViaWebSocket ''a'' JNull plain_call, CallViaWebSocket ''b'' JNull plain_call])
      (new_RPC2Client True default_options)) =
    [(IdNum (int id_limit), \<lparr>promise = 1, timeout = Some 4\<rparr>)]
 \<and> fst (generateRequestId (run exhausting_run (new_RPC2Client True default_options))) =
    requestId (run exhausting_run (new_RPC2Client True default_options))"
  by (simp add: run_append run_Cons run_Nil exhausting_run_fields default_requestTimeout
      double_succ_facts callViaWebSocket_def generateRequestId_def sendMessage_def setTimeout_def
      socket_state_def Let_def plain_call_def sent_ids_def List.map_filter_def Map_set_def)

end
